theory Spec2Isabelle
  imports Main
begin

section \<open>Values, errors and the state tree\<close>

text \<open>
  The store of \<^verbatim>\<open>src/store.js\<close> is embedded with explicit state passing. A JavaScript
  value is a \<open>jsval\<close>; an object is a list of its own properties in insertion order.
  A function object supplied by the user (a mutation, an action, a getter, a subscriber) is
  referred to by an identity \<open>fid\<close>, as \<^verbatim>\<open>indexOf\<close> compares function objects by
  reference; what such a function does when called is given by the environment \<open>env\<close>
  below.
\<close>

type_synonym fid = nat

datatype jsval =
    Undefined
  | Null
  | Bool bool
  | Num int
  | Str string
  | Obj "(string \<times> jsval) list"

datatype error =
    TypeError
  | AssertError string
  | Thrown jsval

text \<open>Truthiness of a value, as \<^verbatim>\<open>if (x)\<close>, \<^verbatim>\<open>x && y\<close> and \<^verbatim>\<open>!!x\<close> read it.\<close>

fun truthy :: "jsval \<Rightarrow> bool" where
  "truthy Undefined = False"
| "truthy Null = False"
| "truthy (Bool b) = b"
| "truthy (Num n) = (n \<noteq> 0)"
| "truthy (Str s) = (s \<noteq> [])"
| "truthy (Obj kvs) = True"

text \<open>
  \<^verbatim>\<open>v[key]\<close>: reading a property of \<^verbatim>\<open>undefined\<close> or \<^verbatim>\<open>null\<close> is a TypeError; a
  missing property, and any property of a primitive, reads as \<^verbatim>\<open>undefined\<close> (inherited
  properties are not modelled).
\<close>

fun get_prop :: "jsval \<Rightarrow> string \<Rightarrow> error + jsval" where
  "get_prop Undefined k = Inl TypeError"
| "get_prop Null k = Inl TypeError"
| "get_prop (Obj kvs) k = (case map_of kvs k of None \<Rightarrow> Inr Undefined | Some v \<Rightarrow> Inr v)"
| "get_prop v k = Inr Undefined"

text \<open>\<^verbatim>\<open>obj[key] = v\<close> on a property list: replace in place, or append a new property.\<close>

fun assign :: "'k \<Rightarrow> 'v \<Rightarrow> ('k \<times> 'v) list \<Rightarrow> ('k \<times> 'v) list" where
  "assign k v [] = [(k, v)]"
| "assign k v ((k', v') # kvs) =
     (if k = k' then (k, v) # kvs else (k', v') # assign k v kvs)"

text \<open>
  \<^verbatim>\<open>function getNestedState (state, path) { return path.reduce((state, key) => state[key], state) }\<close>
\<close>

fun getNestedState :: "jsval \<Rightarrow> string list \<Rightarrow> error + jsval" where
  "getNestedState st [] = Inr st"
| "getNestedState st (key # path) =
     (case get_prop st key of
        Inl e \<Rightarrow> Inl e
      | Inr st' \<Rightarrow> getNestedState st' path)"

section \<open>Modules (the Module class)\<close>

text \<open>
  An action of a raw module is a function, or an object \<^verbatim>\<open>{ root, handler }\<close>.
\<close>

datatype action_def =
    ActionFn fid
  | ActionObj bool fid

record rawModule =
  raw_namespaced :: jsval
  raw_mutations :: "(string \<times> fid) list option"
  raw_actions :: "(string \<times> action_def) list option"
  raw_getters :: "(string \<times> fid) list option"

datatype Module =
  Module (runtime: bool) (children: "(string \<times> Module) list") (rawModule: rawModule)
    (mstate: jsval)

text \<open>\<^verbatim>\<open>get namespaced () { return !!this._rawModule.namespaced }\<close>\<close>

definition namespaced :: "Module \<Rightarrow> bool" where
  "namespaced m = truthy (raw_namespaced (rawModule m))"

text \<open>
  \<^verbatim>\<open>forEachMutation\<close>, \<^verbatim>\<open>forEachAction\<close>, \<^verbatim>\<open>forEachGetter\<close> visit the entries of the raw
  module's table when it is present, in the order of its keys.
\<close>

definition mutation_entries :: "Module \<Rightarrow> (string \<times> fid) list" where
  "mutation_entries m = (case raw_mutations (rawModule m) of None \<Rightarrow> [] | Some ms \<Rightarrow> ms)"

definition action_entries :: "Module \<Rightarrow> (string \<times> action_def) list" where
  "action_entries m = (case raw_actions (rawModule m) of None \<Rightarrow> [] | Some as \<Rightarrow> as)"

definition getter_entries :: "Module \<Rightarrow> (string \<times> fid) list" where
  "getter_entries m = (case raw_getters (rawModule m) of None \<Rightarrow> [] | Some gs \<Rightarrow> gs)"

text \<open>
  Modelled from the spec: \<^verbatim>\<open>ModuleCollection.getNamespace\<close> (module-collection.js is not
  among the sources). It walks from the root along the path and accumulates each module's
  own contribution: its key followed by the separator \<^verbatim>\<open>/\<close> when the module is
  namespaced, nothing otherwise. A path that does not resolve reads a property of
  \<^verbatim>\<open>undefined\<close>.
\<close>

fun getNamespace :: "Module \<Rightarrow> string list \<Rightarrow> error + string" where
  "getNamespace m [] = Inr []"
| "getNamespace m (key # path) =
     (case map_of (children m) key of
        None \<Rightarrow> Inl TypeError
      | Some child \<Rightarrow>
          (case getNamespace child path of
             Inl e \<Rightarrow> Inl e
           | Inr ns \<Rightarrow> Inr ((if namespaced child then key @ ''/'' else []) @ ns)))"

section \<open>The store\<close>

text \<open>
  \<^verbatim>\<open>makeLocalContext (store, namespace, path)\<close> closes over the namespace and the path;
  its \<^verbatim>\<open>state\<close> is read lazily as \<^verbatim>\<open>getNestedState(store.state, path)\<close>.
\<close>

record local_ctx =
  lc_namespace :: string
  lc_path :: "string list"

text \<open>
  A registered handler is the wrapper that \<^verbatim>\<open>registerMutation\<close>, \<^verbatim>\<open>registerAction\<close> or
  \<^verbatim>\<open>registerGetter\<close> builds: the raw function together with the local context it closes
  over.
\<close>

type_synonym wrapped = "fid \<times> local_ctx"

text \<open>An action subscriber is an object \<^verbatim>\<open>{ before?, after?, error? }\<close>.\<close>

record action_subscriber =
  sub_before :: "fid option"
  sub_after :: "fid option"
  sub_error :: "fid option"

text \<open>
  The fields of a Store instance. The names drop the leading underscore of the source.
  \<open>state\<close> is \<^verbatim>\<open>_vm._data.$$state\<close>, the root of the state tree; \<open>contexts\<close> holds the
  \<^verbatim>\<open>context\<close> field of each module object, by the module's path.

  \<^verbatim>\<open>_actions\<close> maps a type to an array of handlers, and the array is held by reference:
  \<^verbatim>\<open>dispatch\<close> keeps the array that it has read while the subscribers run, and
  \<^verbatim>\<open>registerAction\<close> pushes onto the array that the registry holds. So \<open>actions\<close> gives
  the address of the array of a type, and \<open>action_arrays\<close> the elements of the array at
  an address.
\<close>

record store =
  committing :: bool
  actions :: "(string \<times> nat) list"
  action_arrays :: "(nat \<times> wrapped list) list"
  actionSubscribers :: "action_subscriber list"
  mutations :: "(string \<times> wrapped list) list"
  wrappedGetters :: "(string \<times> wrapped) list"
  modules :: Module
  modulesNamespaceMap :: "(string \<times> Module) list"
  subscribers :: "fid list"
  makeLocalGettersCache :: "(string \<times> (string \<times> string) list) list"
  getters :: "string list"
  strict :: bool
  devtoolHook :: bool
  state :: jsval
  contexts :: "(string list \<times> local_ctx) list"

text \<open>The elements of the array at an address; an array that holds nothing is empty.\<close>

definition array_at :: "store \<Rightarrow> nat \<Rightarrow> wrapped list" where
  "array_at s a = (case map_of (action_arrays s) a of None \<Rightarrow> [] | Some entry \<Rightarrow> entry)"

section \<open>User functions and the trace of calls\<close>

text \<open>
  The context object that \<^verbatim>\<open>registerAction\<close> hands to an action:
  \<^verbatim>\<open>{ dispatch, commit, getters, state, rootGetters, rootState }\<close>. The local
  \<^verbatim>\<open>dispatch\<close> and \<^verbatim>\<open>commit\<close> are the closures of the local context; a getters
  object is the list of its keys, each with the key of the root getter it reads.
\<close>

record action_ctx =
  ctx_local :: local_ctx
  ctx_getters :: "(string \<times> string) list"
  ctx_state :: jsval
  ctx_rootGetters :: "string list"
  ctx_rootState :: jsval

text \<open>
  A promise is described by the turn of the event loop in which it settles, counted from
  the call that created it, and by how it settles; \<open>None\<close> is a promise that stays
  pending. Reactions (\<^verbatim>\<open>then\<close>, \<^verbatim>\<open>catch\<close>) run as microtasks of the turn in which the
  promise settles, so a promise made by \<^verbatim>\<open>then\<close>, \<^verbatim>\<open>catch\<close> or \<^verbatim>\<open>Promise.all\<close> settles
  in the turn of the promise that decides it. The order of the settlements within one turn
  is not part of the description.
\<close>

datatype 'a settled = Fulfilled 'a | Rejected jsval

type_synonym 'a promise = "(nat \<times> 'a settled) option"

text \<open>
  What an action returns: a value that is not a thenable, or a thenable (\<^verbatim>\<open>isPromise\<close>: a
  value with a method \<^verbatim>\<open>then\<close>). A thenable is described as a promise is, by the turn in
  which it calls a callback of \<^verbatim>\<open>then\<close> and by which one (it is taken to call one of them,
  once); the flag tells whether it has a method \<^verbatim>\<open>catch\<close>, as every promise has,
  and such a method is taken to be that of a promise.
\<close>

datatype action_ret = Plain jsval | Thenable bool "jsval promise"

text \<open>
  The promise on which a dispatch waits: the promise of its one handler, or the promise of
  \<^verbatim>\<open>Promise.all\<close>. When several handlers are rejected in one turn, \<^verbatim>\<open>Promise.all\<close> is
  rejected with the error of the one whose reaction runs first. The description of a
  promise holds the turn only, so the rejection of an awaited promise holds the errors of
  all the rejections of that turn, in the order of the handlers: the promise is rejected
  with one of them.
\<close>

datatype 'a outcome = Fulfils 'a | Rejects "jsval list"

type_synonym 'a awaited = "(nat \<times> 'a outcome) option"

datatype phase = Before | After | OnError

text \<open>
  The trace records, in order, every call of a user function made by the store, every
  event given to the devtools hook and every message written to the console. A mutation
  handler's entry holds the arguments it was called with and the value of
  \<^verbatim>\<open>_committing\<close> at the call.
\<close>

datatype event =
    MutationHandlerCall fid jsval jsval bool
  | SubscriberCall fid jsval jsval
  | ActionHandlerCall fid action_ctx jsval
  | ActionSubscriberCall phase fid jsval jsval "jsval option"
  | DevtoolEmit string jsval
  | ConsoleError string
  | ConsoleErrorValue error
  | ConsoleWarn string

text \<open>
  The environment: the build constant \<^verbatim>\<open>__DEV__\<close>, the conversion of a value to a
  property key, and the behaviour of each user function. A call receives its arguments
  and the store (a function can reach the store as \<^verbatim>\<open>this\<close> or through a closure), and
  leaves a store and either returns or throws. \<open>devtool_emit\<close> is the method \<^verbatim>\<open>emit\<close> of
  the devtools hook, which returns or throws a value. \<open>prototype_keys\<close> are the property
  names that the operator \<^verbatim>\<open>in\<close> finds on every object of the state tree besides the
  object's own fields: those that the object inherits (from \<^verbatim>\<open>Object.prototype\<close>:
  \<^verbatim>\<open>constructor\<close>, \<^verbatim>\<open>toString\<close>, \<^verbatim>\<open>valueOf\<close>, \<^verbatim>\<open>hasOwnProperty\<close> and so on) and those
  that the host framework keeps on it.
\<close>

record env =
  DEV :: bool
  ToString :: "jsval \<Rightarrow> string"
  mutation_fn :: "fid \<Rightarrow> jsval \<Rightarrow> jsval \<Rightarrow> store \<Rightarrow> store \<times> error option"
  subscriber_fn :: "fid \<Rightarrow> jsval \<Rightarrow> jsval \<Rightarrow> store \<Rightarrow> store \<times> error option"
  action_fn :: "fid \<Rightarrow> action_ctx \<Rightarrow> jsval \<Rightarrow> store \<Rightarrow> store \<times> (error + action_ret)"
  action_subscriber_fn ::
    "fid \<Rightarrow> jsval \<Rightarrow> jsval \<Rightarrow> jsval option \<Rightarrow> store \<Rightarrow> store \<times> error option"
  devtool_emit :: "string \<Rightarrow> jsval \<Rightarrow> jsval option"
  prototype_keys :: "string list"

text \<open>
  A step of the store: the store it leaves, the trace it wrote, and its completion
  (\<open>Inl\<close> an exception thrown, \<open>Inr\<close> the value returned).
\<close>

type_synonym 'a step = "store \<Rightarrow> store \<times> event list \<times> (error + 'a)"

text \<open>
  \<^verbatim>\<open>xs.forEach(f)\<close> over the elements an array holds when the loop starts: an exception
  of \<open>f\<close> ends the loop and propagates.
\<close>

fun forEach :: "('a \<Rightarrow> unit step) \<Rightarrow> 'a list \<Rightarrow> unit step" where
  "forEach f [] s = (s, [], Inr ())"
| "forEach f (x # xs) s =
     (case f x s of
        (s', tr, Inl e) \<Rightarrow> (s', tr, Inl e)
      | (s', tr, Inr u) \<Rightarrow>
          (case forEach f xs s' of (s'', tr', r) \<Rightarrow> (s'', tr @ tr', r)))"

text \<open>\<^verbatim>\<open>xs.map(f)\<close>, likewise.\<close>

fun mapE :: "('a \<Rightarrow> 'b step) \<Rightarrow> 'a list \<Rightarrow> 'b list step" where
  "mapE f [] s = (s, [], Inr [])"
| "mapE f (x # xs) s =
     (case f x s of
        (s', tr, Inl e) \<Rightarrow> (s', tr, Inl e)
      | (s', tr, Inr y) \<Rightarrow>
          (case mapE f xs s' of
             (s'', tr', Inl e) \<Rightarrow> (s'', tr @ tr', Inl e)
           | (s'', tr', Inr ys) \<Rightarrow> (s'', tr @ tr', Inr (y # ys))))"

section \<open>unifyObjectStyle\<close>

fun typeof :: "jsval \<Rightarrow> string" where
  "typeof Undefined = ''undefined''"
| "typeof Null = ''object''"
| "typeof (Bool b) = ''boolean''"
| "typeof (Num n) = ''number''"
| "typeof (Str s) = ''string''"
| "typeof (Obj kvs) = ''object''"

text \<open>\<^verbatim>\<open>isObject\<close> of util.js: \<^verbatim>\<open>obj !== null && typeof obj === 'object'\<close>.\<close>

fun isObject :: "jsval \<Rightarrow> bool" where
  "isObject (Obj kvs) = True"
| "isObject v = False"

text \<open>\<^verbatim>\<open>x && x.k\<close> read as a condition.\<close>

definition has_flag :: "jsval \<Rightarrow> string \<Rightarrow> bool" where
  "has_flag x k = (truthy x \<and> (case get_prop x k of Inl e \<Rightarrow> False | Inr v \<Rightarrow> truthy v))"

text \<open>
  \<^verbatim>\<open>
  function unifyObjectStyle (type, payload, options) {
    if (isObject(type) && type.type) {
      options = payload
      payload = type
      type = type.type
    }
    if (__DEV__) {
      assert(typeof type === 'string', `expects string as the type, but found ${typeof type}.`)
    }
    return { type, payload, options }
  }
  \<close>
\<close>

definition unifyObjectStyle ::
  "env \<Rightarrow> jsval \<Rightarrow> jsval \<Rightarrow> jsval \<Rightarrow> error + (jsval \<times> jsval \<times> jsval)" where
  "unifyObjectStyle env type0 payload0 options0 =
     (let (type, payload, options) =
            (if isObject type0 \<and> has_flag type0 ''type''
             then (case get_prop type0 ''type'' of
                     Inr t \<Rightarrow> (t, type0, payload0)
                   | Inl e \<Rightarrow> (type0, payload0, options0))
             else (type0, payload0, options0))
      in if DEV env \<and> typeof type \<noteq> ''string''
         then Inl (AssertError (''expects string as the type, but found '' @ typeof type @ ''.''))
         else Inr (type, payload, options))"

text \<open>The key under which \<^verbatim>\<open>obj[type]\<close> looks a value up.\<close>

definition property_key :: "env \<Rightarrow> jsval \<Rightarrow> string" where
  "property_key env v = (case v of Str s \<Rightarrow> s | _ \<Rightarrow> ToString env v)"

section \<open>The committing guard\<close>

text \<open>
  \<^verbatim>\<open>
  _withCommit (fn) {
    const committing = this._committing
    this._committing = true
    fn()
    this._committing = committing
  }
  \<close>
\<close>

definition withCommit :: "unit step \<Rightarrow> unit step" where
  "withCommit fn s =
     (let committing0 = committing s in
      case fn (s\<lparr>committing := True\<rparr>) of
        (s', tr, Inl e) \<Rightarrow> (s', tr, Inl e)
      | (s', tr, Inr u) \<Rightarrow> (s'\<lparr>committing := committing0\<rparr>, tr, Inr ()))"

section \<open>commit\<close>

text \<open>
  The wrapper built by \<^verbatim>\<open>registerMutation\<close>:
  \<^verbatim>\<open>function wrappedMutationHandler (payload) { handler.call(store, local.state, payload) }\<close>
\<close>

definition wrappedMutationHandler :: "env \<Rightarrow> jsval \<Rightarrow> wrapped \<Rightarrow> unit step" where
  "wrappedMutationHandler env payload w s =
     (case getNestedState (state s) (lc_path (snd w)) of
        Inl e \<Rightarrow> (s, [], Inl e)
      | Inr local_state \<Rightarrow>
          (case mutation_fn env (fst w) local_state payload s of
             (s', None) \<Rightarrow>
               (s', [MutationHandlerCall (fst w) local_state payload (committing s)], Inr ())
           | (s', Some e) \<Rightarrow>
               (s', [MutationHandlerCall (fst w) local_state payload (committing s)], Inl e)))"

text \<open>\<^verbatim>\<open>sub => sub(mutation, this.state)\<close>\<close>

definition call_subscriber :: "env \<Rightarrow> jsval \<Rightarrow> fid \<Rightarrow> unit step" where
  "call_subscriber env mutation sub s =
     (case subscriber_fn env sub mutation (state s) s of
        (s', None) \<Rightarrow> (s', [SubscriberCall sub mutation (state s)], Inr ())
      | (s', Some e) \<Rightarrow> (s', [SubscriberCall sub mutation (state s)], Inl e))"

text \<open>
  \<^verbatim>\<open>Store.commit\<close>. The handlers run inside \<^verbatim>\<open>_withCommit\<close>; the subscribers are read
  from a copy of the list taken (\<^verbatim>\<open>slice\<close>) when the handlers are done.
\<close>

definition commit :: "env \<Rightarrow> jsval \<Rightarrow> jsval \<Rightarrow> jsval \<Rightarrow> unit step" where
  "commit env type0 payload0 options0 s =
     (case unifyObjectStyle env type0 payload0 options0 of
        Inl e \<Rightarrow> (s, [], Inl e)
      | Inr (type, payload, options) \<Rightarrow>
          (let mutation = Obj [(''type'', type), (''payload'', payload)] in
           case map_of (mutations s) (property_key env type) of
             None \<Rightarrow>
               (s, if DEV env
                   then [ConsoleError (''[vuex] unknown mutation type: '' @ property_key env type)]
                   else [], Inr ())
           | Some entry \<Rightarrow>
               (case withCommit (forEach (wrappedMutationHandler env payload) entry) s of
                  (s1, tr1, Inl e) \<Rightarrow> (s1, tr1, Inl e)
                | (s1, tr1, Inr u) \<Rightarrow>
                    (case forEach (call_subscriber env mutation) (subscribers s1) s1 of
                       (s2, tr2, Inl e) \<Rightarrow> (s2, tr1 @ tr2, Inl e)
                     | (s2, tr2, Inr u') \<Rightarrow>
                         (s2,
                          tr1 @ tr2 @
                          (if DEV env \<and> has_flag options ''silent''
                           then [ConsoleWarn (''[vuex] mutation type: '' @ property_key env type @
                                   ''. Silent option has been removed. '' @
                                   ''Use the filter functionality in the vue-devtools'')]
                           else []),
                          Inr ())))))"

section \<open>Subscriptions and replaceState\<close>

text \<open>
  \<^verbatim>\<open>
  function genericSubscribe (fn, subs, options) {
    if (subs.indexOf(fn) < 0) {
      options && options.prepend ? subs.unshift(fn) : subs.push(fn)
    }
    return () => {
      const i = subs.indexOf(fn)
      if (i > -1) { subs.splice(i, 1) }
    }
  }
  \<close>
  The first definition is the effect on the array, the second the effect of the returned
  function on it.
\<close>

definition genericSubscribe :: "'a \<Rightarrow> 'a list \<Rightarrow> jsval \<Rightarrow> 'a list" where
  "genericSubscribe fn subs options =
     (if fn \<notin> set subs
      then (if has_flag options ''prepend'' then fn # subs else subs @ [fn])
      else subs)"

definition genericUnsubscribe :: "'a \<Rightarrow> 'a list \<Rightarrow> 'a list" where
  "genericUnsubscribe fn subs = remove1 fn subs"

text \<open>
  \<^verbatim>\<open>subscribe (fn, options) { return genericSubscribe(fn, this._subscribers, options) }\<close>:
  the store with the new list, and the unsubscribe function it returns.
\<close>

definition unsubscribe :: "fid \<Rightarrow> store \<Rightarrow> store" where
  "unsubscribe fn s = s\<lparr>subscribers := genericUnsubscribe fn (subscribers s)\<rparr>"

definition subscribe :: "fid \<Rightarrow> jsval \<Rightarrow> store \<Rightarrow> store \<times> (store \<Rightarrow> store)" where
  "subscribe fn options s =
     (s\<lparr>subscribers := genericSubscribe fn (subscribers s) options\<rparr>, unsubscribe fn)"

text \<open>
  The watcher that \<^verbatim>\<open>enableStrictMode\<close> puts on \<^verbatim>\<open>$$state\<close> (deep, sync) when the store is
  strict: \<^verbatim>\<open>if (__DEV__) assert(store._committing, ...)\<close>. A failed assertion in a watcher
  is reported and does not undo or stop the write.
\<close>

definition set_state :: "env \<Rightarrow> jsval \<Rightarrow> unit step" where
  "set_state env v s =
     (s\<lparr>state := v\<rparr>,
      if strict s \<and> DEV env \<and> \<not> committing s
      then [ConsoleErrorValue
              (AssertError ''do not mutate vuex store state outside mutation handlers.'')]
      else [],
      Inr ())"

text \<open>
  \<^verbatim>\<open>replaceState (state) { this._withCommit(() => { this._vm._data.$$state = state }) }\<close>
\<close>

definition replaceState :: "env \<Rightarrow> jsval \<Rightarrow> unit step" where
  "replaceState env v = withCommit (set_state env v)"

section \<open>dispatch\<close>

text \<open>
  \<^verbatim>\<open>Promise.resolve(v)\<close>, for a value that is not a thenable, is settled already.
\<close>

definition Promise_resolve :: "'a \<Rightarrow> 'a promise" where
  "Promise_resolve v = Some (0, Fulfilled v)"

text \<open>
  \<^verbatim>\<open>Promise.all(ps)\<close> is rejected as soon as one of \<open>ps\<close> is, whatever the others do: in
  the earliest turn in which one of \<open>ps\<close> is rejected, with the error of a promise
  rejected in that turn. It is fulfilled, once all of \<open>ps\<close> are, with the list of their
  values in the order of \<open>ps\<close>; and it stays pending otherwise.
\<close>

fun rejections :: "'a promise list \<Rightarrow> (nat \<times> jsval) list" where
  "rejections [] = []"
| "rejections (p # ps) =
     (case p of
        Some (t, Rejected e) \<Rightarrow> (t, e) # rejections ps
      | _ \<Rightarrow> rejections ps)"

fun all_fulfilled :: "'a promise list \<Rightarrow> (nat \<times> 'a list) option" where
  "all_fulfilled [] = Some (0, [])"
| "all_fulfilled (p # ps) =
     (case p of
        Some (t, Fulfilled v) \<Rightarrow>
          (case all_fulfilled ps of
             None \<Rightarrow> None
           | Some (t', vs) \<Rightarrow> Some (max t t', v # vs))
      | _ \<Rightarrow> None)"

definition Promise_all :: "'a promise list \<Rightarrow> 'a list awaited" where
  "Promise_all ps =
     (case rejections ps of
        r # rs \<Rightarrow>
          (let t = fold min (map fst rs) (fst r)
           in Some (t, Rejects (map snd (filter (\<lambda>te. fst te = t) (r # rs)))))
      | [] \<Rightarrow>
          (case all_fulfilled ps of
             Some (t, vs) \<Rightarrow> Some (t, Fulfils vs)
           | None \<Rightarrow> None))"

text \<open>
  \<^verbatim>\<open>res.catch(onRejected)\<close>: the new promise is fulfilled as \<open>res\<close> is, and when \<open>res\<close>
  is rejected it settles as the reaction decides. A reaction gives the trace it writes
  when it runs and what becomes of the promise.
\<close>

definition promise_catch ::
  "'a promise \<Rightarrow> (jsval \<Rightarrow> event list \<times> 'a settled) \<Rightarrow> 'a promise" where
  "promise_catch res onRejected =
     (case res of
        None \<Rightarrow> None
      | Some (t, Fulfilled v) \<Rightarrow> Some (t, Fulfilled v)
      | Some (t, Rejected err) \<Rightarrow> Some (t, snd (onRejected err)))"

text \<open>
  The reaction \<^verbatim>\<open>err => { store._devtoolHook.emit('vuex:error', err); throw err }\<close>: the
  promise is rejected with the error thrown, which is \<open>err\<close> unless \<^verbatim>\<open>emit\<close> throws.
\<close>

definition devtool_onRejected :: "env \<Rightarrow> jsval \<Rightarrow> event list \<times> jsval settled" where
  "devtool_onRejected env err =
     ([DevtoolEmit ''vuex:error'' err],
      case devtool_emit env ''vuex:error'' err of
        None \<Rightarrow> Rejected err
      | Some thrown \<Rightarrow> Rejected thrown)"

text \<open>
  The value of a dispatch: the result of its one handler, or the array of all results.
  \<open>single_result\<close> and \<open>array_result\<close> give the promise of the one handler and the
  promise of \<^verbatim>\<open>Promise.all\<close> as the promise on which the dispatch waits.
\<close>

datatype dispatch_value = Single jsval | Array "jsval list"

definition single_result :: "jsval promise \<Rightarrow> dispatch_value awaited" where
  "single_result p =
     (case p of
        None \<Rightarrow> None
      | Some (t, Fulfilled v) \<Rightarrow> Some (t, Fulfils (Single v))
      | Some (t, Rejected e) \<Rightarrow> Some (t, Rejects [e]))"

definition array_result :: "jsval list awaited \<Rightarrow> dispatch_value awaited" where
  "array_result p =
     (case p of
        None \<Rightarrow> None
      | Some (t, Fulfils vs) \<Rightarrow> Some (t, Fulfils (Array vs))
      | Some (t, Rejects es) \<Rightarrow> Some (t, Rejects es))"

text \<open>
  \<^verbatim>\<open>makeLocalGetters (store, namespace)\<close>: the proxy of the getters under the namespace,
  built once and kept in \<^verbatim>\<open>_makeLocalGettersCache\<close>.
\<close>

definition makeLocalGetters :: "string \<Rightarrow> store \<Rightarrow> store \<times> (string \<times> string) list" where
  "makeLocalGetters namespace s =
     (case map_of (makeLocalGettersCache s) namespace of
        Some proxy \<Rightarrow> (s, proxy)
      | None \<Rightarrow>
          (let splitPos = length namespace;
               proxy = map (\<lambda>t. (drop splitPos t, t))
                         (filter (\<lambda>t. take splitPos t = namespace) (getters s))
           in (s\<lparr>makeLocalGettersCache := assign namespace proxy (makeLocalGettersCache s)\<rparr>,
               proxy)))"

text \<open>The property \<^verbatim>\<open>local.getters\<close> of \<^verbatim>\<open>makeLocalContext\<close>.\<close>

definition local_getters :: "local_ctx \<Rightarrow> store \<Rightarrow> store \<times> (string \<times> string) list" where
  "local_getters local s =
     (if lc_namespace local = [] then (s, map (\<lambda>t. (t, t)) (getters s))
      else makeLocalGetters (lc_namespace local) s)"

text \<open>
  The wrapper built by \<^verbatim>\<open>registerAction\<close>:
  \<^verbatim>\<open>
  function wrappedActionHandler (payload) {
    let res = handler.call(store, {
      dispatch: local.dispatch, commit: local.commit, getters: local.getters,
      state: local.state, rootGetters: store.getters, rootState: store.state
    }, payload)
    if (!isPromise(res)) { res = Promise.resolve(res) }
    if (store._devtoolHook) {
      return res.catch(err => { store._devtoolHook.emit('vuex:error', err); throw err })
    } else {
      return res
    }
  }
  \<close>
  \<open>wrap_result\<close> is the part after the call of the handler, for the value \<open>ret\<close> that
  the handler has returned and the value of \<^verbatim>\<open>store._devtoolHook\<close> at that time. With the
  hook, a thenable that has no method \<^verbatim>\<open>catch\<close> makes \<^verbatim>\<open>res.catch(...)\<close> a TypeError,
  which the wrapper throws.
\<close>

definition wrap_result :: "env \<Rightarrow> bool \<Rightarrow> action_ret \<Rightarrow> error + jsval promise" where
  "wrap_result env hook ret =
     (let res = (case ret of Thenable c p \<Rightarrow> p | Plain v \<Rightarrow> Promise_resolve v);
          has_catch = (case ret of Thenable c p \<Rightarrow> c | Plain v \<Rightarrow> True)
      in if hook
         then (if has_catch then Inr (promise_catch res (devtool_onRejected env))
               else Inl TypeError)
         else Inr res)"

definition wrappedActionHandler :: "env \<Rightarrow> jsval \<Rightarrow> wrapped \<Rightarrow> jsval promise step" where
  "wrappedActionHandler env payload w s =
     (case local_getters (snd w) s of
        (s1, getters_obj) \<Rightarrow>
          (case getNestedState (state s1) (lc_path (snd w)) of
             Inl e \<Rightarrow> (s1, [], Inl e)
           | Inr local_state \<Rightarrow>
               (let ctx = \<lparr>ctx_local = snd w, ctx_getters = getters_obj,
                           ctx_state = local_state, ctx_rootGetters = getters s1,
                           ctx_rootState = state s1\<rparr>
                in case action_fn env (fst w) ctx payload s1 of
                     (s2, Inl e) \<Rightarrow> (s2, [ActionHandlerCall (fst w) ctx payload], Inl e)
                   | (s2, Inr ret) \<Rightarrow>
                       (s2, [ActionHandlerCall (fst w) ctx payload],
                        wrap_result env (devtoolHook s2) ret))))"

text \<open>
  A call of one function of an action subscriber: \<^verbatim>\<open>sub.before(action, this.state)\<close>,
  \<^verbatim>\<open>sub.after(action, this.state)\<close>, \<^verbatim>\<open>sub.error(action, this.state, error)\<close>.
\<close>

definition call_action_subscriber ::
  "env \<Rightarrow> phase \<Rightarrow> jsval \<Rightarrow> jsval option \<Rightarrow> fid \<Rightarrow> unit step" where
  "call_action_subscriber env ph action err f s =
     (case action_subscriber_fn env f action (state s) err s of
        (s', None) \<Rightarrow> (s', [ActionSubscriberCall ph f action (state s) err], Inr ())
      | (s', Some e) \<Rightarrow> (s', [ActionSubscriberCall ph f action (state s) err], Inl e))"

text \<open>
  \<^verbatim>\<open>try { body } catch (e) { if (__DEV__) { console.warn(msg); console.error(e) } }\<close>
\<close>

definition try_report :: "env \<Rightarrow> string \<Rightarrow> unit step \<Rightarrow> unit step" where
  "try_report env msg body s =
     (case body s of
        (s', tr, Inl e) \<Rightarrow>
          (s', tr @ (if DEV env then [ConsoleWarn msg, ConsoleErrorValue e] else []), Inr ())
      | (s', tr, Inr u) \<Rightarrow> (s', tr, Inr ()))"

text \<open>
  The three loops over the action subscribers. Each reads the list when it starts
  (\<^verbatim>\<open>slice\<close>, \<^verbatim>\<open>filter\<close>) and keeps the subscribers that have the function of its phase.
\<close>

definition before_subscribers :: "env \<Rightarrow> jsval \<Rightarrow> unit step" where
  "before_subscribers env action s =
     try_report env ''[vuex] error in before action subscribers: ''
       (forEach (call_action_subscriber env Before action None)
          (List.map_filter sub_before (actionSubscribers s))) s"

definition after_subscribers :: "env \<Rightarrow> jsval \<Rightarrow> unit step" where
  "after_subscribers env action s =
     try_report env ''[vuex] error in after action subscribers: ''
       (forEach (call_action_subscriber env After action None)
          (List.map_filter sub_after (actionSubscribers s))) s"

definition error_subscribers :: "env \<Rightarrow> jsval \<Rightarrow> jsval \<Rightarrow> unit step" where
  "error_subscribers env action err s =
     try_report env ''[vuex] error in error action subscribers: ''
       (forEach (call_action_subscriber env OnError action (Some err))
          (List.map_filter sub_error (actionSubscribers s))) s"

text \<open>
  The handlers of a dispatch, run on the elements that the array \<open>entry\<close> holds at that
  time:
  \<^verbatim>\<open>
  const result = entry.length > 1
    ? Promise.all(entry.map(handler => handler(payload)))
    : entry[0](payload)
  \<close>
\<close>

definition run_action_handlers ::
  "env \<Rightarrow> jsval \<Rightarrow> wrapped list \<Rightarrow> dispatch_value awaited step" where
  "run_action_handlers env payload entry s =
     (if length entry > 1
      then (case mapE (wrappedActionHandler env payload) entry s of
              (s', tr, Inl e) \<Rightarrow> (s', tr, Inl e)
            | (s', tr, Inr ps) \<Rightarrow>
                (s', tr, Inr (array_result (Promise_all ps))))
      else (case entry of
              [] \<Rightarrow> (s, [], Inl TypeError)
            | handler # rest \<Rightarrow>
                (case wrappedActionHandler env payload handler s of
                   (s', tr, Inl e) \<Rightarrow> (s', tr, Inl e)
                 | (s', tr, Inr p) \<Rightarrow>
                     (s', tr, Inr (single_result p)))))"

text \<open>
  The two reactions of \<^verbatim>\<open>result.then\<close>, which run when \<open>result\<close> has settled, on the
  store of that time:
  \<^verbatim>\<open>
  res => { try { ...after subscribers... } catch (e) { ... } resolve(res) }
  error => { try { ...error subscribers... } catch (e) { ... } reject(error) }
  \<close>
  A reaction gives the store it leaves, the trace, and what it does to the promise that
  \<^verbatim>\<open>dispatch\<close> has returned: it fulfils or rejects the promise when it comes to
  \<^verbatim>\<open>resolve\<close> or \<^verbatim>\<open>reject\<close>, and leaves the promise pending (\<open>None\<close>) when an exception
  ends it before.
\<close>

definition dispatch_onFulfilled ::
  "env \<Rightarrow> jsval \<Rightarrow> dispatch_value \<Rightarrow> store \<Rightarrow>
   store \<times> event list \<times> dispatch_value settled option" where
  "dispatch_onFulfilled env action res s =
     (case after_subscribers env action s of
        (s', tr, Inl e) \<Rightarrow> (s', tr, None)
      | (s', tr, Inr u) \<Rightarrow> (s', tr, Some (Fulfilled res)))"

definition dispatch_onRejected ::
  "env \<Rightarrow> jsval \<Rightarrow> jsval \<Rightarrow> store \<Rightarrow>
   store \<times> event list \<times> dispatch_value settled option" where
  "dispatch_onRejected env action err s =
     (case error_subscribers env action err s of
        (s', tr, Inl e) \<Rightarrow> (s', tr, None)
      | (s', tr, Inr u) \<Rightarrow> (s', tr, Some (Rejected err)))"

text \<open>
  The promise that \<^verbatim>\<open>dispatch\<close> returns,
  \<^verbatim>\<open>new Promise((resolve, reject) => { result.then(onFulfilled, onRejected) })\<close>: it is
  given by the action that the two reactions close over and by the promise \<open>result\<close> on
  which they wait. When \<open>result\<close> is fulfilled with \<open>res\<close>, the reaction
  \<open>dispatch_onFulfilled env action res\<close> runs in that turn and decides the promise; when
  \<open>result\<close> is rejected with \<open>err\<close>, \<open>dispatch_onRejected env action err\<close> does.
\<close>

datatype dispatch_promise = NewPromise jsval "dispatch_value awaited"

text \<open>
  \<^verbatim>\<open>Store.dispatch\<close>: the synchronous part, up to the \<^verbatim>\<open>return new Promise(...)\<close>. It
  returns \<^verbatim>\<open>undefined\<close> (\<open>None\<close>) for an unknown type. \<open>entry\<close> is the array that
  \<^verbatim>\<open>this._actions[type]\<close> holds when the dispatch starts; its length and its elements are
  read when the loop over the \<^verbatim>\<open>before\<close> functions is over.
\<close>

definition dispatch :: "env \<Rightarrow> jsval \<Rightarrow> jsval \<Rightarrow> dispatch_promise option step" where
  "dispatch env type0 payload0 s =
     (case unifyObjectStyle env type0 payload0 Undefined of
        Inl e \<Rightarrow> (s, [], Inl e)
      | Inr (type, payload, options) \<Rightarrow>
          (let action = Obj [(''type'', type), (''payload'', payload)] in
           case map_of (actions s) (property_key env type) of
             None \<Rightarrow>
               (s, if DEV env
                   then [ConsoleError (''[vuex] unknown action type: '' @ property_key env type)]
                   else [], Inr None)
           | Some entry \<Rightarrow>
               (case before_subscribers env action s of
                  (s1, tr1, Inl e) \<Rightarrow> (s1, tr1, Inl e)
                | (s1, tr1, Inr u) \<Rightarrow>
                    (case run_action_handlers env payload (array_at s1 entry) s1 of
                       (s2, tr2, Inl e) \<Rightarrow> (s2, tr1 @ tr2, Inl e)
                     | (s2, tr2, Inr result) \<Rightarrow>
                         (s2, tr1 @ tr2, Inr (Some (NewPromise action result)))))))"

section \<open>Registration and the install walk\<close>

text \<open>
  \<^verbatim>\<open>
  function registerMutation (store, type, handler, local) {
    const entry = store._mutations[type] || (store._mutations[type] = [])
    entry.push(function wrappedMutationHandler (payload) { ... })
  }
  \<close>
\<close>

definition registerMutation :: "string \<Rightarrow> fid \<Rightarrow> local_ctx \<Rightarrow> store \<Rightarrow> store" where
  "registerMutation type handler local s =
     (let entry = (case map_of (mutations s) type of None \<Rightarrow> [] | Some entry \<Rightarrow> entry)
      in s\<lparr>mutations := assign type (entry @ [(handler, local)]) (mutations s)\<rparr>)"

text \<open>
  \<^verbatim>\<open>
  function registerAction (store, type, handler, local) {
    const entry = store._actions[type] || (store._actions[type] = [])
    entry.push(function wrappedActionHandler (payload) { ... })
  }
  \<close>
  A new array gets an address above all those of the arrays there are.
\<close>

definition new_address :: "(nat \<times> 'a) list \<Rightarrow> nat" where
  "new_address arrays = Suc (fold max (map fst arrays) 0)"

definition registerAction :: "string \<Rightarrow> fid \<Rightarrow> local_ctx \<Rightarrow> store \<Rightarrow> store" where
  "registerAction type handler local s =
     (case map_of (actions s) type of
        Some entry \<Rightarrow>
          s\<lparr>action_arrays :=
              assign entry (array_at s entry @ [(handler, local)]) (action_arrays s)\<rparr>
      | None \<Rightarrow>
          (let entry = new_address (action_arrays s)
           in s\<lparr>actions := assign type entry (actions s),
                action_arrays := assign entry [(handler, local)] (action_arrays s)\<rparr>))"

text \<open>
  \<^verbatim>\<open>
  function registerGetter (store, type, rawGetter, local) {
    if (store._wrappedGetters[type]) {
      if (__DEV__) { console.error(`[vuex] duplicate getter key: ${type}`) }
      return
    }
    store._wrappedGetters[type] = function wrappedGetter (store) { ... }
  }
  \<close>
\<close>

definition registerGetter :: "env \<Rightarrow> string \<Rightarrow> fid \<Rightarrow> local_ctx \<Rightarrow> unit step" where
  "registerGetter env type rawGetter local s =
     (case map_of (wrappedGetters s) type of
        Some g \<Rightarrow>
          (s, if DEV env then [ConsoleError (''[vuex] duplicate getter key: '' @ type)] else [],
           Inr ())
      | None \<Rightarrow>
          (s\<lparr>wrappedGetters := assign type (rawGetter, local) (wrappedGetters s)\<rparr>, [], Inr ()))"

text \<open>\<^verbatim>\<open>path.join(sep)\<close>\<close>

fun join :: "string list \<Rightarrow> string \<Rightarrow> string" where
  "join [] sep = []"
| "join [x] sep = x"
| "join (x # xs) sep = x @ sep @ join xs sep"

text \<open>
  The first step of \<^verbatim>\<open>installModule\<close>:
  \<^verbatim>\<open>
  if (module.namespaced) {
    if (store._modulesNamespaceMap[namespace] && __DEV__) {
      console.error(`[vuex] duplicate namespace ${namespace} for the namespaced module ${path.join('/')}`)
    }
    store._modulesNamespaceMap[namespace] = module
  }
  \<close>
\<close>

definition register_namespace :: "env \<Rightarrow> string \<Rightarrow> string list \<Rightarrow> Module \<Rightarrow> unit step" where
  "register_namespace env namespace path m s =
     (if namespaced m
      then (s\<lparr>modulesNamespaceMap := assign namespace m (modulesNamespaceMap s)\<rparr>,
            if map_of (modulesNamespaceMap s) namespace \<noteq> None \<and> DEV env
            then [ConsoleError (''[vuex] duplicate namespace '' @ namespace @
                    '' for the namespaced module '' @ join path ''/'')]
            else [],
            Inr ())
      else (s, [], Inr ()))"

text \<open>
  \<^verbatim>\<open>Vue.set(parentState, moduleName, value)\<close>, written on the state tree: the object found
  along \<open>path\<close> gets the property \<open>key\<close>.
\<close>

fun set_nested :: "jsval \<Rightarrow> string list \<Rightarrow> string \<Rightarrow> jsval \<Rightarrow> jsval" where
  "set_nested (Obj kvs) [] k v = Obj (assign k v kvs)"
| "set_nested (Obj kvs) (p # ps) k v =
     (case map_of kvs p of
        None \<Rightarrow> Obj kvs
      | Some inner \<Rightarrow> Obj (assign p (set_nested inner ps k v) kvs))"
| "set_nested x ps k v = x"

text \<open>
  \<^verbatim>\<open>key in obj\<close>: the key is an own property of the object or one of the names that
  every object of the state tree has; a TypeError when \<open>obj\<close> is not an object.
\<close>

fun has_key :: "env \<Rightarrow> string \<Rightarrow> jsval \<Rightarrow> error + bool" where
  "has_key env k (Obj kvs) = Inr (map_of kvs k \<noteq> None \<or> k \<in> set (prototype_keys env))"
| "has_key env k v = Inl TypeError"

text \<open>
  The second step of \<^verbatim>\<open>installModule\<close>, for a module that is not the root and not hot:
  \<^verbatim>\<open>
  const parentState = getNestedState(rootState, path.slice(0, -1))
  const moduleName = path[path.length - 1]
  store._withCommit(() => {
    if (__DEV__) {
      if (moduleName in parentState) {
        console.warn(`[vuex] state field "${moduleName}" was overridden by a module with the same name at "${path.join('.')}"`)
      }
    }
    Vue.set(parentState, moduleName, module.state)
  })
  \<close>
  \<open>rootState\<close> is the object that the store holds as its state: the walk is started with
  it by \<^verbatim>\<open>registerModule\<close> and \<^verbatim>\<open>resetStore\<close>, and the constructor puts it there.
  \<^verbatim>\<open>Vue.set\<close> reads \<^verbatim>\<open>key in target\<close> itself, so a parent that is not an object is a
  TypeError in every build.
\<close>

definition graft_body :: "env \<Rightarrow> string list \<Rightarrow> Module \<Rightarrow> jsval \<Rightarrow> unit step" where
  "graft_body env path m parentState s =
     (case has_key env (last path) parentState of
        Inl e \<Rightarrow> (s, [], Inl e)
      | Inr present \<Rightarrow>
          (case set_state env (set_nested (state s) (butlast path) (last path) (mstate m)) s of
             (s', tr, r) \<Rightarrow>
               (s',
                (if DEV env \<and> present
                 then [ConsoleWarn (''[vuex] state field \"'' @ last path @
                         ''\" was overridden by a module with the same name at \"'' @
                         join path ''.'' @ ''\"'')]
                 else []) @ tr,
                r)))"

definition graft_state :: "env \<Rightarrow> string list \<Rightarrow> Module \<Rightarrow> unit step" where
  "graft_state env path m s =
     (case getNestedState (state s) (butlast path) of
        Inl e \<Rightarrow> (s, [], Inl e)
      | Inr parentState \<Rightarrow> withCommit (graft_body env path m parentState) s)"

text \<open>\<^verbatim>\<open>makeLocalContext (store, namespace, path)\<close>\<close>

definition makeLocalContext :: "string \<Rightarrow> string list \<Rightarrow> local_ctx" where
  "makeLocalContext namespace path = \<lparr>lc_namespace = namespace, lc_path = path\<rparr>"

text \<open>The registrations of one module, in the order of \<^verbatim>\<open>installModule\<close>.\<close>

definition register_mutations :: "string \<Rightarrow> local_ctx \<Rightarrow> Module \<Rightarrow> store \<Rightarrow> store" where
  "register_mutations namespace local m s =
     fold (\<lambda>(key, mutation). registerMutation (namespace @ key) mutation local)
       (mutation_entries m) s"

fun action_type :: "string \<Rightarrow> string \<Rightarrow> action_def \<Rightarrow> string" where
  "action_type namespace key (ActionFn f) = namespace @ key"
| "action_type namespace key (ActionObj root f) = (if root then key else namespace @ key)"

fun action_handler :: "action_def \<Rightarrow> fid" where
  "action_handler (ActionFn f) = f"
| "action_handler (ActionObj root f) = f"

definition register_actions :: "string \<Rightarrow> local_ctx \<Rightarrow> Module \<Rightarrow> store \<Rightarrow> store" where
  "register_actions namespace local m s =
     fold (\<lambda>(key, action).
             registerAction (action_type namespace key action) (action_handler action) local)
       (action_entries m) s"

definition register_getters :: "env \<Rightarrow> string \<Rightarrow> local_ctx \<Rightarrow> Module \<Rightarrow> unit step" where
  "register_getters env namespace local m =
     forEach (\<lambda>(key, getter). registerGetter env (namespace @ key) getter local)
       (getter_entries m)"

text \<open>
  \<^verbatim>\<open>installModule (store, rootState, path, module, hot)\<close>, and the loop over the children
  (\<^verbatim>\<open>module.forEachChild\<close>), which installs each child at \<^verbatim>\<open>path.concat(key)\<close>.
\<close>

fun installModule :: "env \<Rightarrow> string list \<Rightarrow> Module \<Rightarrow> bool \<Rightarrow> unit step"
  and installChildren :: "env \<Rightarrow> string list \<Rightarrow> (string \<times> Module) list \<Rightarrow> bool \<Rightarrow> unit step"
where
  "installModule env path (Module rt ch raw st) hot s =
     (case getNamespace (modules s) path of
        Inl e \<Rightarrow> (s, [], Inl e)
      | Inr namespace \<Rightarrow>
          (case register_namespace env namespace path (Module rt ch raw st) s of
             (s1, tr1, r1) \<Rightarrow>
               (case (if path \<noteq> [] \<and> \<not> hot
                      then graft_state env path (Module rt ch raw st) s1
                      else (s1, [], Inr ())) of
                  (s2, tr2, Inl e) \<Rightarrow> (s2, tr1 @ tr2, Inl e)
                | (s2, tr2, Inr u) \<Rightarrow>
                    (let local = makeLocalContext namespace path;
                         s3 = s2\<lparr>contexts := assign path local (contexts s2)\<rparr>;
                         s4 = register_mutations namespace local (Module rt ch raw st) s3;
                         s5 = register_actions namespace local (Module rt ch raw st) s4
                     in case register_getters env namespace local (Module rt ch raw st) s5 of
                          (s6, tr3, r3) \<Rightarrow>
                            (case installChildren env path ch hot s6 of
                               (s7, tr4, r) \<Rightarrow> (s7, tr1 @ tr2 @ tr3 @ tr4, r))))))"
| "installChildren env path [] hot s = (s, [], Inr ())"
| "installChildren env path ((key, child) # rest) hot s =
     (case installModule env (path @ [key]) child hot s of
        (s', tr, Inl e) \<Rightarrow> (s', tr, Inl e)
      | (s', tr, Inr u) \<Rightarrow>
          (case installChildren env path rest hot s' of
             (s'', tr', r) \<Rightarrow> (s'', tr @ tr', r)))"

text \<open>
  The state object of a module when the walk has installed it: the states of its children
  have been grafted into it, each under the key of the child and in the order of the
  children, after their own children's.
\<close>

fun grafted :: "Module \<Rightarrow> jsval"
  and graft_children :: "jsval \<Rightarrow> (string \<times> Module) list \<Rightarrow> jsval"
where
  "grafted (Module rt ch raw st) = graft_children st ch"
| "graft_children st [] = st"
| "graft_children st ((key, child) # rest) =
     graft_children (set_nested st [] key (grafted child)) rest"

text \<open>
  A module that the walk can install at a path of the module tree \<open>root\<close>: the namespace
  of the path resolves, the state of a module that has children is an object, and the
  children can be installed at their paths.
\<close>

fun installable :: "Module \<Rightarrow> string list \<Rightarrow> Module \<Rightarrow> bool"
  and children_installable :: "Module \<Rightarrow> string list \<Rightarrow> (string \<times> Module) list \<Rightarrow> bool"
where
  "installable root path (Module rt ch raw st) =
     ((case getNamespace root path of Inl e \<Rightarrow> False | Inr ns \<Rightarrow> True) \<and>
      (ch = [] \<or> isObject st) \<and> children_installable root path ch)"
| "children_installable root path [] = True"
| "children_installable root path ((key, child) # rest) =
     (installable root (path @ [key]) child \<and> children_installable root path rest)"

section \<open>Reading the trace\<close>

text \<open>
  The kinds of entries: a call of a mutation handler; a call of a mutation handler with
  the payload \<open>p\<close> made while \<^verbatim>\<open>_committing\<close> was set; a call of a commit subscriber.
\<close>

fun is_mutation_call :: "event \<Rightarrow> bool" where
  "is_mutation_call (MutationHandlerCall f ls p c) = True"
| "is_mutation_call ev = False"


fun is_subscriber_call :: "event \<Rightarrow> bool" where
  "is_subscriber_call (SubscriberCall f m st) = True"
| "is_subscriber_call ev = False"

text \<open>A call of the commit subscriber \<open>fn\<close>.\<close>

fun calls_subscriber :: "fid \<Rightarrow> event \<Rightarrow> bool" where
  "calls_subscriber fn (SubscriberCall f m st) = (f = fn)"
| "calls_subscriber fn ev = False"

text \<open>
  The action handlers called, and the functions of action subscribers called in a phase,
  in the order of the trace.
\<close>

fun action_call :: "event \<Rightarrow> fid option" where
  "action_call (ActionHandlerCall f ctx p) = Some f"
| "action_call ev = None"

fun observer_call :: "phase \<Rightarrow> event \<Rightarrow> fid option" where
  "observer_call ph (ActionSubscriberCall ph' f a st err) = (if ph' = ph then Some f else None)"
| "observer_call ph ev = None"

definition action_calls :: "event list \<Rightarrow> fid list" where
  "action_calls tr = List.map_filter action_call tr"

definition observer_calls :: "phase \<Rightarrow> event list \<Rightarrow> fid list" where
  "observer_calls ph tr = List.map_filter (observer_call ph) tr"

text \<open>The handlers that the registry of actions holds for a type, in the order of the array.\<close>

definition handlers_of :: "store \<Rightarrow> string \<Rightarrow> wrapped list" where
  "handlers_of s type =
     (case map_of (actions s) type of None \<Rightarrow> [] | Some entry \<Rightarrow> array_at s entry)"

section \<open>A small store to evaluate on\<close>

text \<open>
  The examples below are evaluated on a store with a root module and the state
  \<^verbatim>\<open>{ count: 0 }\<close>, in a development build. Mutation 1 sets \<^verbatim>\<open>count\<close> to the payload,
  mutation 2 sets the field \<^verbatim>\<open>seen\<close>, every other mutation throws. Subscriber 20 calls
  its own unsubscribe function, subscriber 22 throws, every other subscriber does nothing.
  Action 30 returns the number 1; action 31 a promise fulfilled in turn 2; action 32 a
  promise rejected in turn 1; action 33 a promise that stays pending; action 35 a promise
  rejected in turn 1 with another error; action 36 a thenable without a method
  \<^verbatim>\<open>catch\<close>, fulfilled in turn 1; every other action throws. The function 40 of an action
  subscriber throws, the function 45 registers the action 31 for the type \<^verbatim>\<open>go\<close>, every
  other one does nothing. The method \<^verbatim>\<open>emit\<close> of the devtools hook returns. The objects
  of the state tree inherit from \<^verbatim>\<open>Object.prototype\<close>.
\<close>

definition example_raw :: rawModule where
  "example_raw =
     \<lparr>raw_namespaced = Undefined, raw_mutations = None, raw_actions = None,
      raw_getters = None\<rparr>"

definition root_local :: local_ctx where
  "root_local = makeLocalContext [] []"

definition example_store :: store where
  "example_store =
     \<lparr>committing = False, actions = [], action_arrays = [], actionSubscribers = [],
      mutations = [], wrappedGetters = [],
      modules = Module False [] example_raw (Obj [(''count'', Num 0)]),
      modulesNamespaceMap = [], subscribers = [], makeLocalGettersCache = [], getters = [],
      strict = True, devtoolHook = False, state = Obj [(''count'', Num 0)], contexts = []\<rparr>"

definition example_env :: env where
  "example_env =
     \<lparr>DEV = True,
      ToString = (\<lambda>v. ''[object Object]''),
      mutation_fn = (\<lambda>f local_state payload s.
        if f = 1 then (s\<lparr>state := Obj [(''count'', payload)]\<rparr>, None)
        else if f = 2 then (s\<lparr>state := set_nested (state s) [] ''seen'' (Bool True)\<rparr>, None)
        else (s, Some (Thrown (Str ''boom'')))),
      subscriber_fn = (\<lambda>f mutation st s.
        if f = 20 then (unsubscribe 20 s, None)
        else if f = 22 then (s, Some (Thrown (Str ''subscriber'')))
        else (s, None)),
      action_fn = (\<lambda>f ctx payload s.
        if f = 30 then (s, Inr (Plain (Num 1)))
        else if f = 31 then (s, Inr (Thenable True (Some (2, Fulfilled (Num 2)))))
        else if f = 32 then (s, Inr (Thenable True (Some (1, Rejected (Str ''no'')))))
        else if f = 33 then (s, Inr (Thenable True None))
        else if f = 35 then (s, Inr (Thenable True (Some (1, Rejected (Str ''never'')))))
        else if f = 36 then (s, Inr (Thenable False (Some (1, Fulfilled (Num 6)))))
        else (s, Inl (Thrown (Str ''action'')))),
      action_subscriber_fn = (\<lambda>f action st err s.
        if f = 40 then (s, Some (Thrown (Str ''observer'')))
        else if f = 45 then (registerAction ''go'' 31 (makeLocalContext [] []) s, None)
        else (s, None)),
      devtool_emit = (\<lambda>event err. None),
      prototype_keys =
        [''constructor'', ''hasOwnProperty'', ''isPrototypeOf'', ''propertyIsEnumerable'',
         ''toLocaleString'', ''toString'', ''valueOf'', ''__proto__'', ''__defineGetter__'',
         ''__defineSetter__'', ''__lookupGetter__'', ''__lookupSetter__'']\<rparr>"

text \<open>The context object that an action of the root module receives on this store.\<close>

definition example_ctx :: action_ctx where
  "example_ctx =
     \<lparr>ctx_local = root_local, ctx_getters = [], ctx_state = Obj [(''count'', Num 0)],
      ctx_rootGetters = [], ctx_rootState = Obj [(''count'', Num 0)]\<rparr>"

text \<open>An action subscriber whose three functions are the function \<open>f\<close>.\<close>

definition observer :: "fid \<Rightarrow> action_subscriber" where
  "observer f = \<lparr>sub_before = Some f, sub_after = Some f, sub_error = Some f\<rparr>"

text \<open>
  Modules to install: a namespaced module with one mutation, and a store whose root state
  already has a field under the key of that module; a tree in which the modules at the
  paths \<^verbatim>\<open>a/b/c\<close> and \<^verbatim>\<open>a/c\<close> get the same namespace \<^verbatim>\<open>a/c/\<close> (the module at
  \<^verbatim>\<open>a/b\<close> is not namespaced) and define a getter of the same name; and the store of that
  tree when the walk has installed the module at \<^verbatim>\<open>a/b/c\<close> and comes to the one at
  \<^verbatim>\<open>a/c\<close>.
\<close>

definition example_child :: Module where
  "example_child =
     Module False []
       \<lparr>raw_namespaced = Bool True, raw_mutations = Some [(''inc'', 1)], raw_actions = None,
        raw_getters = None\<rparr>
       (Obj [(''v'', Num 1)])"

definition example_parent :: store where
  "example_parent =
     example_store\<lparr>modules := Module False [(''a'', example_child)] example_raw
                                  (Obj [(''a'', Num 7)]),
                    state := Obj [(''a'', Num 7)]\<rparr>"

definition example_deep :: Module where
  "example_deep =
     Module False []
       \<lparr>raw_namespaced = Bool True, raw_mutations = None, raw_actions = None,
        raw_getters = Some [(''total'', 50)]\<rparr>
       (Obj [(''v'', Num 1)])"

definition example_late :: Module where
  "example_late =
     Module False []
       \<lparr>raw_namespaced = Bool True, raw_mutations = None, raw_actions = None,
        raw_getters = Some [(''total'', 51)]\<rparr>
       (Obj [(''v'', Num 2)])"

definition example_tree :: Module where
  "example_tree =
     Module False
       [(''a'', Module False
                  [(''b'', Module False [(''c'', example_deep)] example_raw (Obj [])),
                   (''c'', example_late)]
                  \<lparr>raw_namespaced = Bool True, raw_mutations = None, raw_actions = None,
                   raw_getters = None\<rparr>
                  (Obj []))]
       example_raw (Obj [])"

text \<open>The module at \<^verbatim>\<open>a\<close> of that tree.\<close>

definition example_branch :: Module where
  "example_branch =
     Module False
       [(''b'', Module False [(''c'', example_deep)] example_raw (Obj [])),
        (''c'', example_late)]
       \<lparr>raw_namespaced = Bool True, raw_mutations = None, raw_actions = None,
        raw_getters = None\<rparr>
       (Obj [])"

definition example_installed :: store where
  "example_installed =
     example_store
       \<lparr>wrappedGetters :=
          [(''a/c/total'', (50, \<lparr>lc_namespace = ''a/c/'', lc_path = [''a'', ''b'', ''c'']\<rparr>))],
        modules := example_tree,
        modulesNamespaceMap := [(''a/c/'', example_deep)],
        state := Obj [(''a'', Obj [])]\<rparr>"

section \<open>Property lists and registration\<close>

text \<open>What an assignment to a property leaves in the list.\<close>

lemma map_of_assign_same: "map_of (assign k v kvs) k = Some v"
  by (induction kvs) auto

lemma map_of_assign_other: "k' \<noteq> k \<Longrightarrow> map_of (assign k v kvs) k' = map_of kvs k'"
  by (induction kvs) auto


lemma registerAction_appends:
  "handlers_of (registerAction t h l x) t = handlers_of x t @ [(h, l)]"
  by (cases "map_of (actions x) t")
    (simp_all add: registerAction_def handlers_of_def array_at_def Let_def map_of_assign_same)

section \<open>The committing guard and replaceState\<close>

text \<open>
  C9. \<^verbatim>\<open>_withCommit(fn)\<close> runs \<open>fn\<close> on the store with \<^verbatim>\<open>_committing\<close> set: it cannot
  tell two functions apart that agree on such stores. When \<open>fn\<close> returns, the flag gets
  the value it had before the call; a call made while the flag is set leaves it set, so a
  nested call does not clear the guard of the outer one, and the outer call restores the
  value from before. When \<open>fn\<close> throws, the exception propagates and the store is left as
  it was at the throw, the flag not restored: a commit whose handler loop throws ends with
  that exception and with the store of the throw, in which the flag is still set.
\<close>

theorem withCommit_flag:
  "((\<forall>x. committing x \<longrightarrow> fn x = fn' x) \<longrightarrow> withCommit fn s = withCommit fn' s) \<and>
   (fn (s\<lparr>committing := True\<rparr>) = (s', tr, Inr u) \<longrightarrow>
      withCommit fn s = (s'\<lparr>committing := committing s\<rparr>, tr, Inr ()) \<and>
      withCommit fn (s\<lparr>committing := True\<rparr>) = (s'\<lparr>committing := True\<rparr>, tr, Inr ()) \<and>
      withCommit (withCommit fn) s = (s'\<lparr>committing := committing s\<rparr>, tr, Inr ())) \<and>
   (fn (s\<lparr>committing := True\<rparr>) = (s', tr, Inl e) \<longrightarrow>
      withCommit fn s = (s', tr, Inl e)) \<and>
   (unifyObjectStyle env type0 payload0 options0 = Inr (type, payload, options) \<and>
    map_of (mutations s) (property_key env type) = Some entry \<and>
    forEach (wrappedMutationHandler env payload) entry (s\<lparr>committing := True\<rparr>) =
      (s', tr, Inl e) \<longrightarrow>
      commit env type0 payload0 options0 s = (s', tr, Inl e))"
  by (simp add: withCommit_def commit_def)

text \<open>
  On the example store: a commit whose handler throws ends with the flag set although it
  was clear before; a write under the guard, nested or not, leaves the flag clear again.
\<close>

theorem withCommit_flag_witness:
  "\<not> committing example_store \<and>
   commit example_env (Str ''fail'') (Num 5) Undefined
     (example_store\<lparr>mutations := [(''fail'', [(3, root_local)])]\<rparr>) =
     (example_store\<lparr>mutations := [(''fail'', [(3, root_local)])], committing := True\<rparr>,
      [MutationHandlerCall 3 (Obj [(''count'', Num 0)]) (Num 5) True],
      Inl (Thrown (Str ''boom''))) \<and>
   withCommit (set_state example_env Null) example_store =
     (example_store\<lparr>state := Null\<rparr>, [], Inr ()) \<and>
   withCommit (withCommit (set_state example_env Null)) example_store =
     (example_store\<lparr>state := Null\<rparr>, [], Inr ())"
proof -
  let ?s = "example_store\<lparr>mutations := [(''fail'', [(3, root_local)])]\<rparr>"
  let ?tr = "[MutationHandlerCall 3 (Obj [(''count'', Num 0)]) (Num 5) True]"
  have u: "unifyObjectStyle example_env (Str ''fail'') (Num 5) Undefined =
      Inr (Str ''fail'', Num 5, Undefined)"
    by (simp add: unifyObjectStyle_def example_env_def)
  have m: "map_of (mutations ?s) (property_key example_env (Str ''fail'')) =
      Some [(3, root_local)]"
    by (simp add: property_key_def)
  have f: "forEach (wrappedMutationHandler example_env (Num 5)) [(3, root_local)]
      (?s\<lparr>committing := True\<rparr>) = (?s\<lparr>committing := True\<rparr>, ?tr, Inl (Thrown (Str ''boom'')))"
    by (simp add: wrappedMutationHandler_def example_env_def example_store_def
        root_local_def makeLocalContext_def)
  have g: "set_state example_env Null (example_store\<lparr>committing := True\<rparr>) =
      (example_store\<lparr>committing := True, state := Null\<rparr>, [], Inr ())"
    by (simp add: set_state_def)
  from withCommit_flag [of "set_state example_env Null" "set_state example_env Null"
      example_store "example_store\<lparr>committing := True, state := Null\<rparr>" "[]" "()"]
    withCommit_flag [of _ _ ?s "?s\<lparr>committing := True\<rparr>" ?tr _ "Thrown (Str ''boom'')"
      example_env "Str ''fail''" "Num 5" Undefined "Str ''fail''" "Num 5" Undefined
      "[(3, root_local)]"]
    u m f g
  show ?thesis
    by (simp add: example_store_def)
qed

text \<open>
  C8. \<^verbatim>\<open>replaceState(newState)\<close> returns with the root state replaced by the new state
  and every other field of the store as it was: the registries of mutations, actions and
  getters, the namespace map, the local contexts and their getter caches, both subscriber
  lists, the module tree, and the flag \<^verbatim>\<open>_committing\<close>, which is restored. The write is
  made inside \<^verbatim>\<open>_withCommit\<close>: the watcher of strict mode finds the flag set and reports
  nothing, whatever the flag was before the call.
\<close>

theorem replaceState_frame:
  "replaceState env newState s = (s\<lparr>state := newState\<rparr>, [], Inr ()) \<and>
   replaceState env newState s = withCommit (set_state env newState) s \<and>
   set_state env newState (s\<lparr>committing := True\<rparr>) =
     (s\<lparr>committing := True, state := newState\<rparr>, [], Inr ()) \<and>
   state (fst (replaceState env newState s)) = newState \<and>
   committing (fst (replaceState env newState s)) = committing s \<and>
   mutations (fst (replaceState env newState s)) = mutations s \<and>
   actions (fst (replaceState env newState s)) = actions s \<and>
   wrappedGetters (fst (replaceState env newState s)) = wrappedGetters s \<and>
   modulesNamespaceMap (fst (replaceState env newState s)) = modulesNamespaceMap s \<and>
   contexts (fst (replaceState env newState s)) = contexts s \<and>
   makeLocalGettersCache (fst (replaceState env newState s)) = makeLocalGettersCache s \<and>
   subscribers (fst (replaceState env newState s)) = subscribers s \<and>
   actionSubscribers (fst (replaceState env newState s)) = actionSubscribers s \<and>
   modules (fst (replaceState env newState s)) = modules s"
  by (simp add: replaceState_def withCommit_def set_state_def)

section \<open>Unknown types\<close>

text \<open>
  C3. A commit of a type for which no mutation is registered returns, with the store as it
  was, having called no handler and no subscriber: all it does is to write the message of
  the unknown type to the console in a development build. A dispatch of a type for which
  no action is registered does the same and returns \<^verbatim>\<open>undefined\<close>, not a promise. The
  type of a call is the one \<^verbatim>\<open>unifyObjectStyle\<close> resolves.
\<close>

theorem unknown_type_noop:
  "(unifyObjectStyle env type0 payload0 options0 = Inr (type, payload, options) \<and>
    map_of (mutations s) (property_key env type) = None \<longrightarrow>
      commit env type0 payload0 options0 s =
        (s, if DEV env
            then [ConsoleError (''[vuex] unknown mutation type: '' @ property_key env type)]
            else [], Inr ())) \<and>
   (unifyObjectStyle env type0 payload0 Undefined = Inr (type', payload', options') \<and>
    map_of (actions s) (property_key env type') = None \<longrightarrow>
      dispatch env type0 payload0 s =
        (s, if DEV env
            then [ConsoleError (''[vuex] unknown action type: '' @ property_key env type')]
            else [], Inr None))"
  by (simp add: commit_def dispatch_def)

text \<open>
  On the example store, where \<^verbatim>\<open>increment\<close> is registered as a mutation only and nothing
  is registered as \<^verbatim>\<open>unknownAction\<close>.
\<close>

theorem unknown_type_noop_witness:
  "commit example_env (Str ''unknownMutation'') (Num 5) Undefined
     (example_store\<lparr>mutations := [(''increment'', [(1, root_local)])]\<rparr>) =
     (example_store\<lparr>mutations := [(''increment'', [(1, root_local)])]\<rparr>,
      [ConsoleError ''[vuex] unknown mutation type: unknownMutation''], Inr ()) \<and>
   dispatch example_env (Obj [(''type'', Str ''unknownAction'')]) Undefined
     (example_store\<lparr>mutations := [(''increment'', [(1, root_local)])]\<rparr>) =
     (example_store\<lparr>mutations := [(''increment'', [(1, root_local)])]\<rparr>,
      [ConsoleError ''[vuex] unknown action type: unknownAction''], Inr None)"
proof -
  let ?s = "example_store\<lparr>mutations := [(''increment'', [(1, root_local)])]\<rparr>"
  have u1: "unifyObjectStyle example_env (Str ''unknownMutation'') (Num 5) Undefined =
      Inr (Str ''unknownMutation'', Num 5, Undefined)"
    by (simp add: unifyObjectStyle_def example_env_def)
  have u2: "unifyObjectStyle example_env (Obj [(''type'', Str ''unknownAction'')]) Undefined
      Undefined = Inr (Str ''unknownAction'', Obj [(''type'', Str ''unknownAction'')], Undefined)"
    by (simp add: unifyObjectStyle_def example_env_def has_flag_def)
  have m1: "map_of (mutations ?s) (property_key example_env (Str ''unknownMutation'')) = None"
    by (simp add: property_key_def)
  have m2: "map_of (actions ?s) (property_key example_env (Str ''unknownAction'')) = None"
    by (simp add: property_key_def example_store_def)
  have d: "DEV example_env"
    by (simp add: example_env_def)
  from unknown_type_noop [of example_env "Str ''unknownMutation''" "Num 5" Undefined
      "Str ''unknownMutation''" "Num 5" Undefined ?s] u1 m1 d
  have c: "commit example_env (Str ''unknownMutation'') (Num 5) Undefined ?s =
      (?s, [ConsoleError ''[vuex] unknown mutation type: unknownMutation''], Inr ())"
    by (simp add: property_key_def)
  from unknown_type_noop [of example_env "Obj [(''type'', Str ''unknownAction'')]" Undefined
      Undefined _ _ _ ?s "Str ''unknownAction''" "Obj [(''type'', Str ''unknownAction'')]"
      Undefined] u2 m2 d
  have "dispatch example_env (Obj [(''type'', Str ''unknownAction'')]) Undefined ?s =
      (?s, [ConsoleError ''[vuex] unknown action type: unknownAction''], Inr None)"
    by (simp add: property_key_def)
  with c show ?thesis
    by simp
qed

section \<open>Commit: handlers, then subscribers\<close>

text \<open>Loops over a list that is the concatenation of two.\<close>

lemma forEach_append:
  "forEach f (xs @ ys) s =
     (case forEach f xs s of
        (s', tr, Inl e) \<Rightarrow> (s', tr, Inl e)
      | (s', tr, Inr u) \<Rightarrow> (case forEach f ys s' of (s'', tr', r) \<Rightarrow> (s'', tr @ tr', r)))"
  by (induction xs arbitrary: s) (auto split: prod.splits sum.splits)



lemma forEach_trace_all:
  assumes "\<And>x s s' tr r. f x s = (s', tr, r) \<Longrightarrow> list_all P tr"
  shows "forEach f xs s = (s', tr, r) \<Longrightarrow> list_all P tr"
proof (induction xs arbitrary: s s' tr r)
  case Nil
  then show ?case by simp
next
  case (Cons x xs)
  obtain s1 tr1 r1 where x: "f x s = (s1, tr1, r1)"
    by (cases "f x s") auto
  then have tr1: "list_all P tr1"
    by (rule assms)
  show ?case
  proof (cases r1)
    case (Inl e)
    with Cons.prems x tr1 show ?thesis by simp
  next
    case (Inr u)
    obtain s2 tr2 r2 where xs: "forEach f xs s1 = (s2, tr2, r2)"
      by (cases "forEach f xs s1") auto
    then have "list_all P tr2"
      by (rule Cons.IH)
    with Cons.prems x Inr xs tr1 show ?thesis by auto
  qed
qed

lemma forEach_handlers_calls:
  "forEach (wrappedMutationHandler env p) entry s = (s', tr, r) \<Longrightarrow> list_all is_mutation_call tr"
  by (erule forEach_trace_all [rotated])
    (auto simp: wrappedMutationHandler_def split: prod.splits sum.splits option.splits)







section \<open>Subscribing and unsubscribing\<close>

text \<open>A commit calls no subscriber outside the copy of the list it takes.\<close>

lemma forEach_subscribers_absent:
  "forEach (call_subscriber env m) subs s = (s', tr, r) \<Longrightarrow> fn \<notin> set subs \<Longrightarrow>
   \<not> list_ex (calls_subscriber fn) tr"
proof (induction subs arbitrary: s s' tr r)
  case Nil
  then show ?case by simp
next
  case (Cons g subs)
  obtain s1 tr1 r1 where g: "call_subscriber env m g s = (s1, tr1, r1)"
    by (cases "call_subscriber env m g s") auto
  with Cons.prems(2) have tr1: "\<not> list_ex (calls_subscriber fn) tr1"
    by (auto simp: call_subscriber_def split: prod.splits option.splits)
  show ?case
  proof (cases r1)
    case (Inl e)
    with Cons.prems(1) g tr1 show ?thesis by simp
  next
    case (Inr u)
    obtain s2 tr2 r2 where rest: "forEach (call_subscriber env m) subs s1 = (s2, tr2, r2)"
      by (cases "forEach (call_subscriber env m) subs s1") auto
    with Cons.IH Cons.prems(2) have "\<not> list_ex (calls_subscriber fn) tr2"
      by simp
    with Cons.prems(1) g Inr rest tr1 show ?thesis by auto
  qed
qed

lemma handler_calls_no_subscriber:
  "list_all is_mutation_call tr \<Longrightarrow> \<not> list_ex (calls_subscriber fn) tr"
  by (induction tr) (auto elim: is_mutation_call.elims)

lemma commit_calls_snapshot_only:
  assumes "\<And>type payload options entry x1 trx rx.
      unifyObjectStyle env type0 payload0 options0 = Inr (type, payload, options) \<Longrightarrow>
      map_of (mutations x) (property_key env type) = Some entry \<Longrightarrow>
      forEach (wrappedMutationHandler env payload) entry (x\<lparr>committing := True\<rparr>) = (x1, trx, rx) \<Longrightarrow>
      fn \<notin> set (subscribers x1)"
  shows "\<not> list_ex (calls_subscriber fn) (fst (snd (commit env type0 payload0 options0 x)))"
proof (cases "unifyObjectStyle env type0 payload0 options0")
  case (Inl e)
  then show ?thesis by (simp add: commit_def)
next
  case (Inr tpo)
  obtain type payload options where tpo: "tpo = (type, payload, options)"
    by (cases tpo) auto
  show ?thesis
  proof (cases "map_of (mutations x) (property_key env type)")
    case None
    with Inr tpo show ?thesis by (simp add: commit_def)
  next
    case (Some entry)
    obtain x1 trx rx where h: "forEach (wrappedMutationHandler env payload) entry
        (x\<lparr>committing := True\<rparr>) = (x1, trx, rx)"
      by (cases "forEach (wrappedMutationHandler env payload) entry (x\<lparr>committing := True\<rparr>)") auto
    have absent: "fn \<notin> set (subscribers x1)"
      using assms Inr tpo Some h by blast
    have trx: "\<not> list_ex (calls_subscriber fn) trx"
      using forEach_handlers_calls [OF h] by (rule handler_calls_no_subscriber)
    show ?thesis
    proof (cases rx)
      case (Inl e)
      with Inr tpo Some h trx show ?thesis
        by (simp add: commit_def withCommit_def)
    next
      case (Inr u)
      let ?m = "Obj [(''type'', type), (''payload'', payload)]"
      let ?x1 = "x1\<lparr>committing := committing x\<rparr>"
      obtain x2 tr2 r2 where subs: "forEach (call_subscriber env ?m) (subscribers x1) ?x1 = (x2, tr2, r2)"
        by (cases "forEach (call_subscriber env ?m) (subscribers x1) ?x1") auto
      from forEach_subscribers_absent [OF subs absent]
      have "\<not> list_ex (calls_subscriber fn) tr2" .
      with \<open>unifyObjectStyle env type0 payload0 options0 = Inr tpo\<close> tpo Some h Inr subs trx
      show ?thesis
        by (cases r2) (simp_all add: commit_def withCommit_def)
    qed
  qed
qed

text \<open>
  C7. \<^verbatim>\<open>subscribe(fn)\<close> appends \<open>fn\<close> to the list of subscribers when the list does not
  hold it and leaves the list as it is otherwise, so a list without duplicates stays so;
  it returns the function that removes \<open>fn\<close> from the list. Take a commit whose handlers
  have returned, with \<open>fn\<close> in the copy of the list that the commit takes, and let
  \<open>fn\<close>, when its turn comes, call that function and return. Then the loop goes on with
  the subscribers that follow \<open>fn\<close> in the copy, from the store in which \<open>fn\<close> is
  removed, and the commit ends as that rest of the loop ends. A later commit calls only the
  subscribers of the list it finds: when that list does not hold \<open>fn\<close>, its trace has no
  call of \<open>fn\<close>.
\<close>

theorem unsubscribe_during_commit:
  "fst (subscribe fn Undefined x) =
     x\<lparr>subscribers := (if fn \<in> set (subscribers x) then subscribers x
                        else subscribers x @ [fn])\<rparr> \<and>
   snd (subscribe fn opts x) = unsubscribe fn \<and>
   unsubscribe fn x = x\<lparr>subscribers := remove1 fn (subscribers x)\<rparr> \<and>
   (distinct (subscribers x) \<longrightarrow>
      distinct (subscribers (fst (subscribe fn opts x))) \<and>
      fn \<notin> set (subscribers (unsubscribe fn x))) \<and>
   (unifyObjectStyle env type0 payload0 options0 = Inr (type, payload, options) \<and>
    map_of (mutations s) (property_key env type) = Some entry \<and>
    forEach (wrappedMutationHandler env payload) entry (s\<lparr>committing := True\<rparr>) =
      (s1, tr1, Inr ()) \<and>
    subscribers s1 = pre @ fn # post \<and>
    forEach (call_subscriber env (Obj [(''type'', type), (''payload'', payload)])) pre
      (s1\<lparr>committing := committing s\<rparr>) = (sk, trk, Inr ()) \<and>
    subscriber_fn env fn (Obj [(''type'', type), (''payload'', payload)]) (state sk) sk =
      (unsubscribe fn sk, None) \<longrightarrow>
      (\<exists>s2 tr2 tr3 r.
         forEach (call_subscriber env (Obj [(''type'', type), (''payload'', payload)])) post
           (unsubscribe fn sk) = (s2, tr2, r) \<and>
         commit env type0 payload0 options0 s =
           (s2, tr1 @ trk @
                SubscriberCall fn (Obj [(''type'', type), (''payload'', payload)]) (state sk) #
                tr2 @ tr3, r) \<and>
         \<not> list_ex is_subscriber_call tr3)) \<and>
   ((\<forall>type' payload' options' entry' y1 trh ry.
       unifyObjectStyle env type1 payload1 options1 = Inr (type', payload', options') \<and>
       map_of (mutations y) (property_key env type') = Some entry' \<and>
       forEach (wrappedMutationHandler env payload') entry' (y\<lparr>committing := True\<rparr>) =
         (y1, trh, ry) \<longrightarrow>
       fn \<notin> set (subscribers y1)) \<longrightarrow>
      \<not> list_ex (calls_subscriber fn) (fst (snd (commit env type1 payload1 options1 y))))"
proof (intro conjI impI)
  show "fst (subscribe fn Undefined x) =
     x\<lparr>subscribers := (if fn \<in> set (subscribers x) then subscribers x
                        else subscribers x @ [fn])\<rparr>"
    by (simp add: subscribe_def genericSubscribe_def has_flag_def)
  show "snd (subscribe fn opts x) = unsubscribe fn"
    by (simp add: subscribe_def)
  show "unsubscribe fn x = x\<lparr>subscribers := remove1 fn (subscribers x)\<rparr>"
    by (simp add: unsubscribe_def genericUnsubscribe_def)
  show "distinct (subscribers (fst (subscribe fn opts x)))" if "distinct (subscribers x)"
    using that by (simp add: subscribe_def genericSubscribe_def)
  show "fn \<notin> set (subscribers (unsubscribe fn x))" if "distinct (subscribers x)"
    using that by (simp add: unsubscribe_def genericUnsubscribe_def)
next
  let ?m = "Obj [(''type'', type), (''payload'', payload)]"
  assume h: "unifyObjectStyle env type0 payload0 options0 = Inr (type, payload, options) \<and>
    map_of (mutations s) (property_key env type) = Some entry \<and>
    forEach (wrappedMutationHandler env payload) entry (s\<lparr>committing := True\<rparr>) =
      (s1, tr1, Inr ()) \<and>
    subscribers s1 = pre @ fn # post \<and>
    forEach (call_subscriber env ?m) pre (s1\<lparr>committing := committing s\<rparr>) = (sk, trk, Inr ()) \<and>
    subscriber_fn env fn ?m (state sk) sk = (unsubscribe fn sk, None)"
  obtain s2 tr2 r where post: "forEach (call_subscriber env ?m) post (unsubscribe fn sk) = (s2, tr2, r)"
    by (cases "forEach (call_subscriber env ?m) post (unsubscribe fn sk)") auto
  define tr3 where "tr3 = (case r of Inl e \<Rightarrow> [] | Inr u \<Rightarrow>
     (if DEV env \<and> has_flag options ''silent''
      then [ConsoleWarn (''[vuex] mutation type: '' @ property_key env type @
             ''. Silent option has been removed. '' @
             ''Use the filter functionality in the vue-devtools'')]
      else []))"
  have loop: "forEach (call_subscriber env ?m) (subscribers s1) (s1\<lparr>committing := committing s\<rparr>) =
      (s2, trk @ SubscriberCall fn ?m (state sk) # tr2, r)"
    using h post by (simp add: forEach_append call_subscriber_def)
  have c: "commit env type0 payload0 options0 s =
      (s2, tr1 @ trk @ SubscriberCall fn ?m (state sk) # tr2 @ tr3, r)"
    using h loop by (cases r) (simp_all add: commit_def withCommit_def tr3_def)
  have "\<not> list_ex is_subscriber_call tr3"
    by (cases r) (simp_all add: tr3_def)
  with post c show "\<exists>s2 tr2 tr3 r.
         forEach (call_subscriber env ?m) post (unsubscribe fn sk) = (s2, tr2, r) \<and>
         commit env type0 payload0 options0 s =
           (s2, tr1 @ trk @ SubscriberCall fn ?m (state sk) # tr2 @ tr3, r) \<and>
         \<not> list_ex is_subscriber_call tr3"
    by blast
next
  assume "\<forall>type' payload' options' entry' y1 trh ry.
       unifyObjectStyle env type1 payload1 options1 = Inr (type', payload', options') \<and>
       map_of (mutations y) (property_key env type') = Some entry' \<and>
       forEach (wrappedMutationHandler env payload') entry' (y\<lparr>committing := True\<rparr>) =
         (y1, trh, ry) \<longrightarrow>
       fn \<notin> set (subscribers y1)"
  then show "\<not> list_ex (calls_subscriber fn) (fst (snd (commit env type1 payload1 options1 y)))"
    by (intro commit_calls_snapshot_only) blast
qed

text \<open>
  On the example store with the subscribers 21, 20 and 23, of which 20 unsubscribes itself:
  the first commit calls all three, the second one calls 20 no more.
\<close>

theorem unsubscribe_during_commit_witness:
  "fst (subscribe 20 Undefined (example_store\<lparr>subscribers := [21]\<rparr>)) =
     example_store\<lparr>subscribers := [21, 20]\<rparr> \<and>
   commit example_env (Str ''increment'') (Num 5) Undefined
     (example_store\<lparr>mutations := [(''increment'', [(1, root_local)])],
        subscribers := [21, 20, 23]\<rparr>) =
     (example_store\<lparr>mutations := [(''increment'', [(1, root_local)])],
        subscribers := [21, 23], state := Obj [(''count'', Num 5)]\<rparr>,
      [MutationHandlerCall 1 (Obj [(''count'', Num 0)]) (Num 5) True,
       SubscriberCall 21 (Obj [(''type'', Str ''increment''), (''payload'', Num 5)])
         (Obj [(''count'', Num 5)]),
       SubscriberCall 20 (Obj [(''type'', Str ''increment''), (''payload'', Num 5)])
         (Obj [(''count'', Num 5)]),
       SubscriberCall 23 (Obj [(''type'', Str ''increment''), (''payload'', Num 5)])
         (Obj [(''count'', Num 5)])],
      Inr ()) \<and>
   \<not> list_ex (calls_subscriber 20)
       (fst (snd (commit example_env (Str ''increment'') (Num 7) Undefined
          (example_store\<lparr>mutations := [(''increment'', [(1, root_local)])],
             subscribers := [21, 23], state := Obj [(''count'', Num 5)]\<rparr>))))"
proof -
  let ?s = "example_store\<lparr>mutations := [(''increment'', [(1, root_local)])],
        subscribers := [21, 20, 23]\<rparr>"
  let ?y = "example_store\<lparr>mutations := [(''increment'', [(1, root_local)])],
        subscribers := [21, 23], state := Obj [(''count'', Num 5)]\<rparr>"
  let ?m = "Obj [(''type'', Str ''increment''), (''payload'', Num 5)]"
  let ?s1 = "?s\<lparr>committing := True, state := Obj [(''count'', Num 5)]\<rparr>"
  let ?sk = "?s\<lparr>state := Obj [(''count'', Num 5)]\<rparr>"
  let ?tr1 = "[MutationHandlerCall 1 (Obj [(''count'', Num 0)]) (Num 5) True]"
  let ?trk = "[SubscriberCall 21 ?m (Obj [(''count'', Num 5)])]"
  note defs = wrappedMutationHandler_def call_subscriber_def example_env_def example_store_def
    root_local_def makeLocalContext_def unsubscribe_def genericUnsubscribe_def
  have u: "unifyObjectStyle example_env (Str ''increment'') (Num 5) Undefined =
      Inr (Str ''increment'', Num 5, Undefined)"
    by (simp add: unifyObjectStyle_def example_env_def)
  have m: "map_of (mutations ?s) (property_key example_env (Str ''increment'')) =
      Some [(1, root_local)]"
    by (simp add: property_key_def)
  have f: "forEach (wrappedMutationHandler example_env (Num 5)) [(1, root_local)]
      (?s\<lparr>committing := True\<rparr>) = (?s1, ?tr1, Inr ())"
    by (simp add: defs)
  have snap: "subscribers ?s1 = [21] @ 20 # [23]"
    by simp
  have pre: "forEach (call_subscriber example_env ?m) [21] (?s1\<lparr>committing := committing ?s\<rparr>) =
      (?sk, ?trk, Inr ())"
    by (simp add: defs)
  have un: "subscriber_fn example_env 20 ?m (state ?sk) ?sk = (unsubscribe 20 ?sk, None)"
    by (simp add: example_env_def)
  have post: "forEach (call_subscriber example_env ?m) [23] (unsubscribe 20 ?sk) =
      (?y, [SubscriberCall 23 ?m (Obj [(''count'', Num 5)])], Inr ())"
    by (simp add: defs)
  have later: "\<forall>type' payload' options' entry' y1 trh ry.
       unifyObjectStyle example_env (Str ''increment'') (Num 7) Undefined =
         Inr (type', payload', options') \<and>
       map_of (mutations ?y) (property_key example_env type') = Some entry' \<and>
       forEach (wrappedMutationHandler example_env payload') entry' (?y\<lparr>committing := True\<rparr>) =
         (y1, trh, ry) \<longrightarrow>
       20 \<notin> set (subscribers y1)"
    by (auto simp: unifyObjectStyle_def property_key_def defs)
  note inst = unsubscribe_during_commit [where fn = 20 and env = example_env and s = ?s
      and x = "example_store\<lparr>subscribers := [21]\<rparr>"
      and ?type0.0 = "Str ''increment''" and ?payload0.0 = "Num 5" and ?options0.0 = Undefined
      and type = "Str ''increment''" and payload = "Num 5" and options = Undefined
      and entry = "[(1, root_local)]" and ?s1.0 = ?s1 and ?tr1.0 = ?tr1
      and pre = "[21]" and post = "[23]" and sk = ?sk and trk = ?trk
      and ?type1.0 = "Str ''increment''" and ?payload1.0 = "Num 7" and ?options1.0 = Undefined
      and y = ?y]
  from inst have a: "fst (subscribe 20 Undefined (example_store\<lparr>subscribers := [21]\<rparr>)) =
     example_store\<lparr>subscribers := [21, 20]\<rparr>"
    by (simp add: example_store_def)
  from inst u m f snap pre un obtain s2 tr2 tr3 r where
    "forEach (call_subscriber example_env ?m) [23] (unsubscribe 20 ?sk) = (s2, tr2, r)"
    "commit example_env (Str ''increment'') (Num 5) Undefined ?s =
       (s2, ?tr1 @ ?trk @ SubscriberCall 20 ?m (state ?sk) # tr2 @ tr3, r)"
    by blast
  with post have b: "\<exists>tr3. commit example_env (Str ''increment'') (Num 5) Undefined ?s =
       (?y, ?tr1 @ ?trk @ SubscriberCall 20 ?m (Obj [(''count'', Num 5)]) #
          [SubscriberCall 23 ?m (Obj [(''count'', Num 5)])] @ tr3, Inr ())"
    by auto
  have b': "commit example_env (Str ''increment'') (Num 5) Undefined ?s =
       (?y, ?tr1 @ ?trk @ SubscriberCall 20 ?m (Obj [(''count'', Num 5)]) #
          [SubscriberCall 23 ?m (Obj [(''count'', Num 5)])], Inr ())"
    using b u m f by (auto simp: commit_def withCommit_def has_flag_def defs)
  from inst later have c: "\<not> list_ex (calls_subscriber 20)
       (fst (snd (commit example_env (Str ''increment'') (Num 7) Undefined ?y)))"
    by blast
  from a b' c show ?thesis
    by simp
qed

section \<open>Dispatch: the handlers and their promise\<close>

text \<open>What the loops of a dispatch write to the trace, and what the handlers return.\<close>

lemma map_filter_append: "List.map_filter f (xs @ ys) = List.map_filter f xs @ List.map_filter f ys"
  by (simp add: List.map_filter_def)

lemma action_calls_append: "action_calls (xs @ ys) = action_calls xs @ action_calls ys"
  by (simp add: action_calls_def map_filter_append)

lemma observer_calls_append:
  "observer_calls ph (xs @ ys) = observer_calls ph xs @ observer_calls ph ys"
  by (simp add: observer_calls_def map_filter_append)

lemma call_action_subscriber_trace:
  "call_action_subscriber env ph a err f s = (s', tr, r) \<Longrightarrow>
   tr = [ActionSubscriberCall ph f a (state s) err] \<and>
   action_subscriber_fn env f a (state s) err s = (s', case r of Inl e \<Rightarrow> Some e | Inr u \<Rightarrow> None)"
  by (auto simp: call_action_subscriber_def split: prod.splits option.splits)

lemma forEach_observers:
  "forEach (call_action_subscriber env ph a err) fs s = (s', tr, r) \<Longrightarrow>
   action_calls tr = [] \<and>
   (\<exists>n. n \<le> length fs \<and> observer_calls ph tr = take n fs \<and> (\<forall>u. r = Inr u \<longrightarrow> n = length fs))"
proof (induction fs arbitrary: s s' tr r)
  case Nil
  then show ?case by (simp add: action_calls_def observer_calls_def List.map_filter_def)
next
  case (Cons f fs)
  obtain s1 tr1 r1 where f: "call_action_subscriber env ph a err f s = (s1, tr1, r1)"
    by (cases "call_action_subscriber env ph a err f s") auto
  from call_action_subscriber_trace [OF f]
  have tr1: "tr1 = [ActionSubscriberCall ph f a (state s) err]" by simp
  have one: "action_calls tr1 = [] \<and> observer_calls ph tr1 = [f]"
    by (simp add: tr1 action_calls_def observer_calls_def List.map_filter_def)
  show ?case
  proof (cases r1)
    case (Inl e)
    with Cons.prems f have "tr = tr1" "r = Inl e" by auto
    with one show ?thesis
      by (auto intro!: exI [of _ 1])
  next
    case (Inr u)
    obtain s2 tr2 r2 where rest: "forEach (call_action_subscriber env ph a err) fs s1 = (s2, tr2, r2)"
      by (cases "forEach (call_action_subscriber env ph a err) fs s1") auto
    from Cons.IH [OF rest] obtain n where n: "action_calls tr2 = []" "n \<le> length fs"
      "observer_calls ph tr2 = take n fs" "\<forall>u. r2 = Inr u \<longrightarrow> n = length fs"
      by blast
    from Cons.prems f Inr rest have "tr = tr1 @ tr2" "r = r2" by auto
    with one n show ?thesis
      by (auto simp: action_calls_append observer_calls_append intro!: exI [of _ "Suc n"])
  qed
qed

lemma forEach_observers_all:
  assumes "forEach (call_action_subscriber env ph a err) fs s = (s', tr, Inr u)"
  shows "observer_calls ph tr = fs \<and> action_calls tr = []"
  using forEach_observers [OF assms] by auto

lemma wrappedActionHandler_returns:
  assumes "wrappedActionHandler env payload w s = (s', tr, Inr p)"
  shows "\<exists>s1 ctx ret.
           action_fn env (fst w) ctx payload s1 = (s', Inr ret) \<and>
           ctx_local ctx = snd w \<and>
           getNestedState (state s1) (lc_path (snd w)) = Inr (ctx_state ctx) \<and>
           ctx_rootState ctx = state s1 \<and>
           tr = [ActionHandlerCall (fst w) ctx payload] \<and>
           wrap_result env (devtoolHook s') ret = Inr p"
proof -
  obtain s1 g where lg: "local_getters (snd w) s = (s1, g)"
    by (cases "local_getters (snd w) s") auto
  from assms lg obtain ls where ls: "getNestedState (state s1) (lc_path (snd w)) = Inr ls"
    by (cases "getNestedState (state s1) (lc_path (snd w))")
      (auto simp: wrappedActionHandler_def)
  let ?ctx = "\<lparr>ctx_local = snd w, ctx_getters = g, ctx_state = ls,
      ctx_rootGetters = getters s1, ctx_rootState = state s1\<rparr>"
  obtain s2 r2 where a: "action_fn env (fst w) ?ctx payload s1 = (s2, r2)"
    by (cases "action_fn env (fst w) ?ctx payload s1") auto
  with assms lg ls obtain ret where ret: "r2 = Inr ret"
    by (cases r2) (auto simp: wrappedActionHandler_def Let_def)
  from assms lg ls a ret have "s' = s2" "tr = [ActionHandlerCall (fst w) ?ctx payload]"
    "wrap_result env (devtoolHook s2) ret = Inr p"
    by (auto simp: wrappedActionHandler_def Let_def)
  with a ret ls show ?thesis
    by (intro exI [of _ s1] exI [of _ ?ctx] exI [of _ ret]) simp
qed

lemma wrappedActionHandler_trace:
  "wrappedActionHandler env payload w s = (s', tr, r) \<Longrightarrow>
   observer_calls ph tr = [] \<and> (action_calls tr = [] \<or> action_calls tr = [fst w])"
  by (auto simp: wrappedActionHandler_def Let_def observer_calls_def action_calls_def
      List.map_filter_def split: prod.splits sum.splits)

lemma mapE_handlers:
  "mapE (wrappedActionHandler env payload) entry s = (s', tr, Inr ps) \<Longrightarrow>
   length ps = length entry \<and> length tr = length entry \<and>
   action_calls tr = map fst entry \<and>
   (\<forall>i<length entry. \<exists>s1 x' ctx ret.
      action_fn env (fst (entry ! i)) ctx payload s1 = (x', Inr ret) \<and>
      ctx_local ctx = snd (entry ! i) \<and>
      getNestedState (state s1) (lc_path (snd (entry ! i))) = Inr (ctx_state ctx) \<and>
      tr ! i = ActionHandlerCall (fst (entry ! i)) ctx payload \<and>
      wrap_result env (devtoolHook x') ret = Inr (ps ! i))"
proof (induction entry arbitrary: s s' tr ps)
  case Nil
  then show ?case by (simp add: action_calls_def List.map_filter_def)
next
  case (Cons w ws)
  obtain s1 tr1 r1 where w: "wrappedActionHandler env payload w s = (s1, tr1, r1)"
    by (cases "wrappedActionHandler env payload w s") auto
  with Cons.prems obtain p where r1: "r1 = Inr p"
    by (cases r1) auto
  obtain s2 tr2 r2 where rest: "mapE (wrappedActionHandler env payload) ws s1 = (s2, tr2, r2)"
    by (cases "mapE (wrappedActionHandler env payload) ws s1") auto
  with Cons.prems w r1 obtain qs where r2: "r2 = Inr qs"
    by (cases r2) auto
  from Cons.prems w r1 rest r2 have eq: "s' = s2" "tr = tr1 @ tr2" "ps = p # qs"
    by auto
  from wrappedActionHandler_returns [OF w [unfolded r1]]
  obtain x1 ctx ret where hd: "action_fn env (fst w) ctx payload x1 = (s1, Inr ret)"
    "ctx_local ctx = snd w" "getNestedState (state x1) (lc_path (snd w)) = Inr (ctx_state ctx)"
    "tr1 = [ActionHandlerCall (fst w) ctx payload]"
    "wrap_result env (devtoolHook s1) ret = Inr p"
    by blast
  note ih = Cons.IH [OF rest [unfolded r2]]
  have calls: "action_calls tr = map fst (w # ws)"
    using ih hd(4) eq by (simp add: action_calls_append) (simp add: action_calls_def List.map_filter_def)
  have nth: "\<exists>s1 x' ctx ret.
      action_fn env (fst ((w # ws) ! i)) ctx payload s1 = (x', Inr ret) \<and>
      ctx_local ctx = snd ((w # ws) ! i) \<and>
      getNestedState (state s1) (lc_path (snd ((w # ws) ! i))) = Inr (ctx_state ctx) \<and>
      tr ! i = ActionHandlerCall (fst ((w # ws) ! i)) ctx payload \<and>
      wrap_result env (devtoolHook x') ret = Inr (ps ! i)"
    if "i < length (w # ws)" for i
  proof (cases i)
    case 0
    with hd eq show ?thesis by auto
  next
    case (Suc j)
    with that have "j < length ws" by simp
    with ih obtain y1 y' c r where
      "action_fn env (fst (ws ! j)) c payload y1 = (y', Inr r)" "ctx_local c = snd (ws ! j)"
      "getNestedState (state y1) (lc_path (snd (ws ! j))) = Inr (ctx_state c)"
      "tr2 ! j = ActionHandlerCall (fst (ws ! j)) c payload"
      "wrap_result env (devtoolHook y') r = Inr (qs ! j)"
      by blast
    with Suc eq hd(4) show ?thesis by auto
  qed
  from ih eq hd(4) calls nth show ?case by simp
qed

lemma mapE_trace:
  "mapE (wrappedActionHandler env payload) entry s = (s', tr, r) \<Longrightarrow> observer_calls ph tr = []"
proof (induction entry arbitrary: s s' tr r)
  case Nil
  then show ?case by (simp add: observer_calls_def List.map_filter_def)
next
  case (Cons w ws)
  obtain s1 tr1 r1 where w: "wrappedActionHandler env payload w s = (s1, tr1, r1)"
    by (cases "wrappedActionHandler env payload w s") auto
  from wrappedActionHandler_trace [OF w] have tr1: "observer_calls ph tr1 = []" by simp
  show ?case
  proof (cases r1)
    case (Inl e)
    with Cons.prems w tr1 show ?thesis by auto
  next
    case (Inr p)
    obtain s2 tr2 r2 where rest: "mapE (wrappedActionHandler env payload) ws s1 = (s2, tr2, r2)"
      by (cases "mapE (wrappedActionHandler env payload) ws s1") auto
    from Cons.IH [OF rest] have "observer_calls ph tr2 = []" .
    with Cons.prems w Inr rest tr1 show ?thesis
      by (cases r2) (auto simp: observer_calls_append)
  qed
qed

lemma run_action_handlers_trace:
  assumes "run_action_handlers env payload entry s = (s', tr, r)"
  shows "observer_calls ph tr = []"
proof (cases "length entry > 1")
  case True
  obtain s1 tr1 r1 where m: "mapE (wrappedActionHandler env payload) entry s = (s1, tr1, r1)"
    by (cases "mapE (wrappedActionHandler env payload) entry s") auto
  with assms True have "tr = tr1"
    by (cases r1) (auto simp: run_action_handlers_def)
  with mapE_trace [OF m] show ?thesis by simp
next
  case False
  show ?thesis
  proof (cases entry)
    case Nil
    with assms show ?thesis
      by (simp add: run_action_handlers_def observer_calls_def List.map_filter_def)
  next
    case (Cons h rest)
    obtain s1 tr1 r1 where w: "wrappedActionHandler env payload h s = (s1, tr1, r1)"
      by (cases "wrappedActionHandler env payload h s") auto
    with assms False Cons have "tr = tr1"
      by (cases r1) (auto simp: run_action_handlers_def)
    with wrappedActionHandler_trace [OF w] show ?thesis by simp
  qed
qed

lemma run_action_handlers_mapE:
  assumes "entry \<noteq> []" and "mapE (wrappedActionHandler env payload) entry s = (s', tr, Inr ps)"
  shows "run_action_handlers env payload entry s =
     (s', tr, Inr (if length entry > 1 then array_result (Promise_all ps)
                   else single_result (hd ps)))"
proof (cases "length entry > 1")
  case True
  with assms show ?thesis by (simp add: run_action_handlers_def)
next
  case False
  with assms(1) obtain h where h: "entry = [h]"
    by (cases entry) auto
  with assms(2) show ?thesis
    by (auto simp: run_action_handlers_def split: prod.splits sum.splits)
qed

text \<open>A handler that throws ends the handlers of the dispatch.\<close>

lemma run_action_handlers_throws:
  assumes "entry \<noteq> []" and "mapE (wrappedActionHandler env payload) entry s = (s', tr, Inl e)"
  shows "run_action_handlers env payload entry s = (s', tr, Inl e)"
proof (cases "length entry > 1")
  case True
  with assms show ?thesis by (simp add: run_action_handlers_def)
next
  case False
  with assms(1) obtain h where h: "entry = [h]"
    by (cases entry) auto
  with assms(2) show ?thesis
    by (auto simp: run_action_handlers_def split: prod.splits sum.splits)
qed

text \<open>The promise of \<^verbatim>\<open>Promise.all\<close>.\<close>

lemma rejections_mem:
  "(t, e) \<in> set (rejections ps) \<longleftrightarrow> Some (t, Rejected e) \<in> set ps"
  by (induction ps) (auto split: option.splits prod.splits settled.splits)

lemma fold_min_le: "fold min xs (x :: nat) \<le> x \<and> (\<forall>y \<in> set xs. fold min xs x \<le> y)"
proof (induction xs arbitrary: x)
  case Nil
  then show ?case by simp
next
  case (Cons a xs)
  from Cons.IH [of "min a x"] show ?case
    by auto
qed

lemma fold_min_mem: "fold min xs (x :: nat) \<in> set (x # xs)"
proof (induction xs arbitrary: x)
  case Nil
  then show ?case by simp
next
  case (Cons a xs)
  from Cons.IH [of "min a x"] show ?case
    by (auto simp: min_def split: if_splits)
qed

lemma all_fulfilled_map:
  "all_fulfilled (map (\<lambda>(t, v). Some (t, Fulfilled v)) tvs) =
     Some (foldr max (map fst tvs) 0, map snd tvs)"
  by (induction tvs) (auto split: prod.splits)

lemma rejections_map:
  "rejections (map (\<lambda>(t, v). Some (t, Fulfilled v)) tvs) = []"
  by (induction tvs) (auto split: prod.splits)

lemma all_fulfilled_pending: "None \<in> set ps \<Longrightarrow> all_fulfilled ps = None"
  by (induction ps) (auto split: option.splits prod.splits settled.splits)

lemma Promise_all_rejected:
  assumes "Some (t0, Rejected e0) \<in> set ps"
  shows "\<exists>t es. Promise_all ps = Some (t, Rejects es) \<and> es \<noteq> [] \<and>
           (\<forall>e \<in> set es. Some (t, Rejected e) \<in> set ps) \<and>
           (\<forall>t' e'. Some (t', Rejected e') \<in> set ps \<longrightarrow> t \<le> t' \<and> (t' = t \<longrightarrow> e' \<in> set es))"
proof -
  from assms have "(t0, e0) \<in> set (rejections ps)"
    by (simp add: rejections_mem)
  then obtain r rs where rs: "rejections ps = r # rs"
    by (cases "rejections ps") auto
  define t where "t = fold min (map fst rs) (fst r)"
  define xs where "xs = r # rs"
  define es where "es = map snd (filter (\<lambda>te. fst te = t) xs)"
  have p: "Promise_all ps = Some (t, Rejects es)"
    by (simp add: Promise_all_def rs Let_def t_def es_def xs_def)
  have tmem: "t \<in> fst ` set xs"
    using fold_min_mem [of "map fst rs" "fst r"] by (simp add: t_def xs_def)
  have tle: "\<forall>x \<in> set xs. t \<le> fst x"
    using fold_min_le [of "map fst rs" "fst r"] by (simp add: t_def xs_def)
  have xs: "\<And>t' e'. (t', e') \<in> set xs \<longleftrightarrow> Some (t', Rejected e') \<in> set ps"
    by (simp add: xs_def rs [symmetric] rejections_mem)
  have es_set: "\<And>e. e \<in> set es \<longleftrightarrow> (t, e) \<in> set xs"
    unfolding es_def by force
  from tmem obtain te where te: "te \<in> set xs" "t = fst te"
    by blast
  then have "(t, snd te) \<in> set xs"
    by simp
  then have "snd te \<in> set es"
    by (simp add: es_set)
  then have ne: "es \<noteq> []"
    by auto
  have mem: "\<forall>e \<in> set es. Some (t, Rejected e) \<in> set ps"
    by (simp add: es_set xs)
  have least: "\<forall>t' e'. Some (t', Rejected e') \<in> set ps \<longrightarrow> t \<le> t' \<and> (t' = t \<longrightarrow> e' \<in> set es)"
  proof (intro allI impI)
    fix t' e'
    assume "Some (t', Rejected e') \<in> set ps"
    then have m: "(t', e') \<in> set xs"
      by (simp add: xs)
    with tle have "t \<le> t'"
      by fastforce
    moreover from m have "t' = t \<longrightarrow> e' \<in> set es"
      unfolding es_set by blast
    ultimately show "t \<le> t' \<and> (t' = t \<longrightarrow> e' \<in> set es)"
      by simp
  qed
  from p ne mem least show ?thesis
    by (intro exI [of _ t] exI [of _ es] conjI) assumption+
qed

lemma Promise_all_fulfilled:
  "Promise_all (map (\<lambda>(t, v). Some (t, Fulfilled v)) tvs) =
     Some (foldr max (map fst tvs) 0, Fulfils (map snd tvs))"
  by (simp add: Promise_all_def rejections_map all_fulfilled_map)

lemma Promise_all_pending:
  assumes "None \<in> set ps" and "\<forall>t e. Some (t, Rejected e) \<notin> set ps"
  shows "Promise_all ps = None"
proof -
  have "rejections ps = []"
  proof (cases "rejections ps")
    case (Cons r rs)
    obtain t e where r: "r = (t, e)"
      by (cases r) auto
    with Cons have "(t, e) \<in> set (rejections ps)"
      by simp
    then have "Some (t, Rejected e) \<in> set ps"
      by (simp add: rejections_mem)
    with assms(2) show ?thesis
      by blast
  qed simp
  with assms(1) show ?thesis
    by (simp add: Promise_all_def all_fulfilled_pending)
qed

text \<open>A loop over the functions of a phase, inside its \<^verbatim>\<open>try\<close>.\<close>

lemma observer_calls_report:
  "observer_calls ph (if b then [ConsoleWarn msg, ConsoleErrorValue e] else []) = []"
  "action_calls (if b then [ConsoleWarn msg, ConsoleErrorValue e] else []) = []"
  by (simp_all add: observer_calls_def action_calls_def List.map_filter_def)

lemma try_report_observers:
  assumes "try_report env msg (forEach (call_action_subscriber env ph a err) fs) s = (s', tr, r)"
  shows "r = Inr () \<and> action_calls tr = [] \<and>
         (\<exists>n. n \<le> length fs \<and> observer_calls ph tr = take n fs)"
proof -
  obtain s1 tr1 r1 where b: "forEach (call_action_subscriber env ph a err) fs s = (s1, tr1, r1)"
    by (cases "forEach (call_action_subscriber env ph a err) fs s") auto
  from forEach_observers [OF b] obtain n where n: "action_calls tr1 = []" "n \<le> length fs"
    "observer_calls ph tr1 = take n fs"
    by blast
  show ?thesis
  proof (cases r1)
    case (Inl e)
    with assms b have "r = Inr ()"
      "tr = tr1 @ (if DEV env then [ConsoleWarn msg, ConsoleErrorValue e] else [])"
      by (simp_all add: try_report_def)
    with n have "action_calls tr = []" "observer_calls ph tr = take n fs"
      by (simp_all add: action_calls_append observer_calls_append observer_calls_report)
    with n(2) \<open>r = Inr ()\<close> show ?thesis
      by blast
  next
    case (Inr u)
    with assms b have "r = Inr ()" "tr = tr1"
      by (simp_all add: try_report_def)
    with n show ?thesis
      by blast
  qed
qed

text \<open>The loop when the function \<open>f\<close> is the first that throws, and when none throws.\<close>

lemma try_report_throw:
  assumes "fs = pre @ f # post"
    and "forEach (call_action_subscriber env ph a err) pre s = (sk, trk, Inr ())"
    and "action_subscriber_fn env f a (state sk) err sk = (s1, Some e)"
  shows "try_report env msg (forEach (call_action_subscriber env ph a err) fs) s =
     (s1, trk @ ActionSubscriberCall ph f a (state sk) err #
          (if DEV env then [ConsoleWarn msg, ConsoleErrorValue e] else []), Inr ())"
    and "observer_calls ph (trk @ ActionSubscriberCall ph f a (state sk) err #
          (if DEV env then [ConsoleWarn msg, ConsoleErrorValue e] else [])) = pre @ [f]"
proof -
  show "try_report env msg (forEach (call_action_subscriber env ph a err) fs) s =
     (s1, trk @ ActionSubscriberCall ph f a (state sk) err #
          (if DEV env then [ConsoleWarn msg, ConsoleErrorValue e] else []), Inr ())"
    using assms by (simp add: try_report_def forEach_append call_action_subscriber_def)
  from forEach_observers_all [OF assms(2)] have "observer_calls ph trk = pre"
    by simp
  then show "observer_calls ph (trk @ ActionSubscriberCall ph f a (state sk) err #
          (if DEV env then [ConsoleWarn msg, ConsoleErrorValue e] else [])) = pre @ [f]"
    by (simp add: observer_calls_append) (simp add: observer_calls_def List.map_filter_def)
qed

lemma try_report_return:
  assumes "forEach (call_action_subscriber env ph a err) fs s = (s', tr, Inr ())"
  shows "try_report env msg (forEach (call_action_subscriber env ph a err) fs) s = (s', tr, Inr ())"
    and "observer_calls ph tr = fs"
  using assms forEach_observers_all [OF assms] by (simp_all add: try_report_def)

text \<open>A loop that throws has a first function that throws.\<close>

lemma forEach_first_throw:
  "forEach (call_action_subscriber env ph a err) fs s = (s', tr, Inl e) \<Longrightarrow>
   \<exists>pre f post sk trk. fs = pre @ f # post \<and>
     forEach (call_action_subscriber env ph a err) pre s = (sk, trk, Inr ()) \<and>
     action_subscriber_fn env f a (state sk) err sk = (s', Some e)"
proof (induction fs arbitrary: s tr)
  case Nil
  then show ?case by simp
next
  case (Cons f fs)
  obtain s1 tr1 r1 where f: "call_action_subscriber env ph a err f s = (s1, tr1, r1)"
    by (cases "call_action_subscriber env ph a err f s") auto
  show ?case
  proof (cases r1)
    case (Inl e1)
    with Cons.prems f have "s1 = s'" "e1 = e"
      by auto
    with call_action_subscriber_trace [OF f] Inl
    have "action_subscriber_fn env f a (state s) err s = (s', Some e)"
      by simp
    then show ?thesis
      by (intro exI [of _ "[]"] exI [of _ f] exI [of _ fs] exI [of _ s] exI [of _ "[]"]) simp
  next
    case (Inr u)
    obtain s2 tr2 r2 where rest: "forEach (call_action_subscriber env ph a err) fs s1 = (s2, tr2, r2)"
      by (cases "forEach (call_action_subscriber env ph a err) fs s1") auto
    with Cons.prems f Inr have "s2 = s'" "r2 = Inl e"
      by auto
    with rest Cons.IH [of s1 tr2] obtain pre g post sk trk where
      ih: "fs = pre @ g # post"
      "forEach (call_action_subscriber env ph a err) pre s1 = (sk, trk, Inr ())"
      "action_subscriber_fn env g a (state sk) err sk = (s', Some e)"
      by blast
    from f Inr ih(2) have "forEach (call_action_subscriber env ph a err) (f # pre) s =
        (sk, tr1 @ trk, Inr ())"
      by simp
    with ih(1) ih(3) show ?thesis
      by (intro exI [of _ "f # pre"] exI [of _ g] exI [of _ post] exI [of _ sk]
          exI [of _ "tr1 @ trk"]) simp
  qed
qed

lemma dispatch_unfold:
  assumes "unifyObjectStyle env type0 payload0 Undefined = Inr (type, payload, options)"
    and "map_of (actions s) (property_key env type) = Some entry"
    and "before_subscribers env (Obj [(''type'', type), (''payload'', payload)]) s = (s1, tr1, r1)"
    and "run_action_handlers env payload (array_at s1 entry) s1 = (s2, tr2, r)"
  shows "dispatch env type0 payload0 s =
     (s2, tr1 @ tr2,
      case r of
        Inl e \<Rightarrow> Inl e
      | Inr result \<Rightarrow>
          Inr (Some (NewPromise (Obj [(''type'', type), (''payload'', payload)]) result)))"
proof -
  from try_report_observers [OF assms(3) [unfolded before_subscribers_def]]
  have "r1 = Inr ()"
    by simp
  with assms show ?thesis
    by (cases r) (simp_all add: dispatch_def)
qed

text \<open>The two reactions of a dispatch come to \<^verbatim>\<open>resolve\<close> and \<^verbatim>\<open>reject\<close>.\<close>

lemma dispatch_reactions:
  "\<exists>x' tr. dispatch_onFulfilled env a res x = (x', tr, Some (Fulfilled res))"
  "\<exists>x' tr. dispatch_onRejected env a err x = (x', tr, Some (Rejected err))"
proof -
  obtain s1 tr1 r1 where b: "after_subscribers env a x = (s1, tr1, r1)"
    by (cases "after_subscribers env a x") auto
  from try_report_observers [OF b [unfolded after_subscribers_def]] b
  show "\<exists>x' tr. dispatch_onFulfilled env a res x = (x', tr, Some (Fulfilled res))"
    by (simp add: dispatch_onFulfilled_def)
  obtain s2 tr2 r2 where c: "error_subscribers env a err x = (s2, tr2, r2)"
    by (cases "error_subscribers env a err x") auto
  from try_report_observers [OF c [unfolded error_subscribers_def]] c
  show "\<exists>x' tr. dispatch_onRejected env a err x = (x', tr, Some (Rejected err))"
    by (simp add: dispatch_onRejected_def)
qed

text \<open>
  C2, as stated, fails: a handler that throws when it is called ends the dispatch with its
  exception. On the example store with the handlers 34, which throws, and 30 for the type
  \<^verbatim>\<open>go\<close>, the dispatch throws: the handler 30 is not started, and no promise is returned.
\<close>

theorem dispatch_handler_throws_counterexample:
  "handlers_of
     (example_store\<lparr>actions := [(''go'', 0)],
        action_arrays := [(0, [(34, root_local), (30, root_local)])]\<rparr>) ''go'' =
     [(34, root_local), (30, root_local)] \<and>
   dispatch example_env (Str ''go'') Undefined
     (example_store\<lparr>actions := [(''go'', 0)],
        action_arrays := [(0, [(34, root_local), (30, root_local)])]\<rparr>) =
     (example_store\<lparr>actions := [(''go'', 0)],
        action_arrays := [(0, [(34, root_local), (30, root_local)])]\<rparr>,
      [ActionHandlerCall 34 example_ctx Undefined],
      Inl (Thrown (Str ''action'')))"
  by (simp add: handlers_of_def array_at_def dispatch_def unifyObjectStyle_def property_key_def
      before_subscribers_def try_report_def run_action_handlers_def List.map_filter_def
      wrappedActionHandler_def local_getters_def root_local_def makeLocalContext_def
      example_env_def example_store_def example_ctx_def)

text \<open>
  C2, amended. Take a dispatch of a registered type, and let \<open>s1\<close> be the store that the
  loop over the \<^verbatim>\<open>before\<close> functions leaves: the handlers of the dispatch are the
  elements that the array of the type holds then. The order of the array is the order of
  registration, as \<^verbatim>\<open>registerAction\<close> appends the new handler to the array of its type.

  When every call of a handler returns (the calls return the promises \<open>ps\<close>), the
  dispatch has called every handler, in the order of the array, before it returns: all are
  started before any is awaited. A handler's promise is made of the value that the action
  returned: the thenable itself, or a promise already fulfilled with the value when it is
  not a thenable. With more than one handler the dispatch returns one promise, which waits
  for \<^verbatim>\<open>Promise.all\<close>: that is fulfilled with the array of all results, in the order of
  the handlers, in the turn in which the last of them is fulfilled; it is rejected as soon
  as one handler is, in the turn of the earliest rejection and with the error of a handler
  rejected in that turn, whatever the others do; it stays pending otherwise. With one
  handler the promise waits for the promise of that handler. The reactions of the promise
  that the dispatch returns always come to \<^verbatim>\<open>resolve\<close> and \<^verbatim>\<open>reject\<close>: it is fulfilled
  with the result and rejected with the error of the promise it waits for.

  When a call of a handler throws, the dispatch ends with that exception, at that call.
\<close>

theorem dispatch_aggregates_handlers:
  assumes unify: "unifyObjectStyle env type0 payload0 Undefined = Inr (type, payload, options)"
    and entry: "map_of (actions s) (property_key env type) = Some entry"
    and before:
      "before_subscribers env (Obj [(''type'', type), (''payload'', payload)]) s = (s1, tr1, r1)"
    and live: "array_at s1 entry \<noteq> []"
  shows "(\<forall>s2 tr2 ps.
            mapE (wrappedActionHandler env payload) (array_at s1 entry) s1 = (s2, tr2, Inr ps) \<longrightarrow>
            dispatch env type0 payload0 s =
              (s2, tr1 @ tr2,
               Inr (Some (NewPromise (Obj [(''type'', type), (''payload'', payload)])
                 (if length (array_at s1 entry) > 1 then array_result (Promise_all ps)
                  else single_result (hd ps))))) \<and>
            length ps = length (array_at s1 entry) \<and>
            action_calls (tr1 @ tr2) = map fst (array_at s1 entry) \<and>
            (\<forall>i<length (array_at s1 entry). \<exists>x1 x' ctx ret.
               action_fn env (fst (array_at s1 entry ! i)) ctx payload x1 = (x', Inr ret) \<and>
               ctx_local ctx = snd (array_at s1 entry ! i) \<and>
               getNestedState (state x1) (lc_path (snd (array_at s1 entry ! i))) =
                 Inr (ctx_state ctx) \<and>
               tr2 ! i = ActionHandlerCall (fst (array_at s1 entry ! i)) ctx payload \<and>
               wrap_result env (devtoolHook x') ret = Inr (ps ! i)) \<and>
            (\<forall>tvs. length (array_at s1 entry) > 1 \<and>
               ps = map (\<lambda>(t, v). Some (t, Fulfilled v)) tvs \<longrightarrow>
               snd (snd (dispatch env type0 payload0 s)) =
                 Inr (Some (NewPromise (Obj [(''type'', type), (''payload'', payload)])
                   (Some (foldr max (map fst tvs) 0, Fulfils (Array (map snd tvs))))))) \<and>
            (\<forall>t0 e0. length (array_at s1 entry) > 1 \<and> Some (t0, Rejected e0) \<in> set ps \<longrightarrow>
               (\<exists>t es. snd (snd (dispatch env type0 payload0 s)) =
                    Inr (Some (NewPromise (Obj [(''type'', type), (''payload'', payload)])
                      (Some (t, Rejects es)))) \<and>
                  es \<noteq> [] \<and>
                  (\<forall>e \<in> set es. Some (t, Rejected e) \<in> set ps) \<and>
                  (\<forall>t' e'. Some (t', Rejected e') \<in> set ps \<longrightarrow>
                     t \<le> t' \<and> (t' = t \<longrightarrow> e' \<in> set es)))) \<and>
            (length (array_at s1 entry) > 1 \<and> None \<in> set ps \<and>
             (\<forall>t e. Some (t, Rejected e) \<notin> set ps) \<longrightarrow>
               snd (snd (dispatch env type0 payload0 s)) =
                 Inr (Some (NewPromise (Obj [(''type'', type), (''payload'', payload)]) None)))) \<and>
         (\<forall>s2 tr2 e.
            mapE (wrappedActionHandler env payload) (array_at s1 entry) s1 = (s2, tr2, Inl e) \<longrightarrow>
            dispatch env type0 payload0 s = (s2, tr1 @ tr2, Inl e)) \<and>
         (\<forall>res x. \<exists>x' tr.
            dispatch_onFulfilled env (Obj [(''type'', type), (''payload'', payload)]) res x =
              (x', tr, Some (Fulfilled res))) \<and>
         (\<forall>err x. \<exists>x' tr.
            dispatch_onRejected env (Obj [(''type'', type), (''payload'', payload)]) err x =
              (x', tr, Some (Rejected err))) \<and>
         wrap_result env False (Plain v) = Inr (Promise_resolve v) \<and>
         wrap_result env False (Thenable c q) = Inr q \<and>
         single_result (Promise_resolve v) = Some (0, Fulfils (Single v)) \<and>
         handlers_of (registerAction t h l x) t = handlers_of x t @ [(h, l)]"
proof -
  let ?a = "Obj [(''type'', type), (''payload'', payload)]"
  let ?entry = "array_at s1 entry"
  have returns: "dispatch env type0 payload0 s =
              (s2, tr1 @ tr2,
               Inr (Some (NewPromise ?a
                 (if length ?entry > 1 then array_result (Promise_all ps)
                  else single_result (hd ps))))) \<and>
            length ps = length ?entry \<and>
            action_calls (tr1 @ tr2) = map fst ?entry \<and>
            (\<forall>i<length ?entry. \<exists>x1 x' ctx ret.
               action_fn env (fst (?entry ! i)) ctx payload x1 = (x', Inr ret) \<and>
               ctx_local ctx = snd (?entry ! i) \<and>
               getNestedState (state x1) (lc_path (snd (?entry ! i))) = Inr (ctx_state ctx) \<and>
               tr2 ! i = ActionHandlerCall (fst (?entry ! i)) ctx payload \<and>
               wrap_result env (devtoolHook x') ret = Inr (ps ! i)) \<and>
            (\<forall>tvs. length ?entry > 1 \<and> ps = map (\<lambda>(t, v). Some (t, Fulfilled v)) tvs \<longrightarrow>
               snd (snd (dispatch env type0 payload0 s)) =
                 Inr (Some (NewPromise ?a
                   (Some (foldr max (map fst tvs) 0, Fulfils (Array (map snd tvs))))))) \<and>
            (\<forall>t0 e0. length ?entry > 1 \<and> Some (t0, Rejected e0) \<in> set ps \<longrightarrow>
               (\<exists>t es. snd (snd (dispatch env type0 payload0 s)) =
                    Inr (Some (NewPromise ?a (Some (t, Rejects es)))) \<and>
                  es \<noteq> [] \<and>
                  (\<forall>e \<in> set es. Some (t, Rejected e) \<in> set ps) \<and>
                  (\<forall>t' e'. Some (t', Rejected e') \<in> set ps \<longrightarrow>
                     t \<le> t' \<and> (t' = t \<longrightarrow> e' \<in> set es)))) \<and>
            (length ?entry > 1 \<and> None \<in> set ps \<and>
             (\<forall>t e. Some (t, Rejected e) \<notin> set ps) \<longrightarrow>
               snd (snd (dispatch env type0 payload0 s)) = Inr (Some (NewPromise ?a None)))"
    if started: "mapE (wrappedActionHandler env payload) ?entry s1 = (s2, tr2, Inr ps)"
    for s2 tr2 ps
  proof -
    let ?d = "if length ?entry > 1 then array_result (Promise_all ps)
              else single_result (hd ps)"
    note run = run_action_handlers_mapE [OF live started]
    have d: "dispatch env type0 payload0 s = (s2, tr1 @ tr2, Inr (Some (NewPromise ?a ?d)))"
      using dispatch_unfold [OF unify entry before run] by simp
    note m = mapE_handlers [OF started]
    have "action_calls tr1 = []"
      using before try_report_observers unfolding before_subscribers_def by blast
    with m have calls: "action_calls (tr1 @ tr2) = map fst ?entry"
      by (simp add: action_calls_append)
    have nth: "\<forall>i<length ?entry. \<exists>x1 x' ctx ret.
               action_fn env (fst (?entry ! i)) ctx payload x1 = (x', Inr ret) \<and>
               ctx_local ctx = snd (?entry ! i) \<and>
               getNestedState (state x1) (lc_path (snd (?entry ! i))) = Inr (ctx_state ctx) \<and>
               tr2 ! i = ActionHandlerCall (fst (?entry ! i)) ctx payload \<and>
               wrap_result env (devtoolHook x') ret = Inr (ps ! i)"
      using m by blast
    have ful: "\<forall>tvs. length ?entry > 1 \<and> ps = map (\<lambda>(t, v). Some (t, Fulfilled v)) tvs \<longrightarrow>
               snd (snd (dispatch env type0 payload0 s)) =
                 Inr (Some (NewPromise ?a
                   (Some (foldr max (map fst tvs) 0, Fulfils (Array (map snd tvs))))))"
      using d by (auto simp: Promise_all_fulfilled array_result_def)
    have rej: "\<forall>t0 e0. length ?entry > 1 \<and> Some (t0, Rejected e0) \<in> set ps \<longrightarrow>
               (\<exists>t es. snd (snd (dispatch env type0 payload0 s)) =
                    Inr (Some (NewPromise ?a (Some (t, Rejects es)))) \<and>
                  es \<noteq> [] \<and>
                  (\<forall>e \<in> set es. Some (t, Rejected e) \<in> set ps) \<and>
                  (\<forall>t' e'. Some (t', Rejected e') \<in> set ps \<longrightarrow>
                     t \<le> t' \<and> (t' = t \<longrightarrow> e' \<in> set es)))"
    proof (intro allI impI)
      fix t0 e0
      assume a: "length ?entry > 1 \<and> Some (t0, Rejected e0) \<in> set ps"
      then have "Some (t0, Rejected e0) \<in> set ps"
        by simp
      from Promise_all_rejected [OF this] obtain t es where
        p: "Promise_all ps = Some (t, Rejects es)" "es \<noteq> []"
        "\<forall>e \<in> set es. Some (t, Rejected e) \<in> set ps"
        "\<forall>t' e'. Some (t', Rejected e') \<in> set ps \<longrightarrow> t \<le> t' \<and> (t' = t \<longrightarrow> e' \<in> set es)"
        by blast
      from d a p(1) have "snd (snd (dispatch env type0 payload0 s)) =
          Inr (Some (NewPromise ?a (Some (t, Rejects es))))"
        by (simp add: array_result_def)
      with p(2) p(3) p(4) show "\<exists>t es. snd (snd (dispatch env type0 payload0 s)) =
                    Inr (Some (NewPromise ?a (Some (t, Rejects es)))) \<and>
                  es \<noteq> [] \<and>
                  (\<forall>e \<in> set es. Some (t, Rejected e) \<in> set ps) \<and>
                  (\<forall>t' e'. Some (t', Rejected e') \<in> set ps \<longrightarrow>
                     t \<le> t' \<and> (t' = t \<longrightarrow> e' \<in> set es))"
        by (intro exI [of _ t] exI [of _ es] conjI) assumption+
    qed
    have pen: "length ?entry > 1 \<and> None \<in> set ps \<and>
             (\<forall>t e. Some (t, Rejected e) \<notin> set ps) \<longrightarrow>
               snd (snd (dispatch env type0 payload0 s)) = Inr (Some (NewPromise ?a None))"
      using d by (auto simp: Promise_all_pending array_result_def)
    from m have len: "length ps = length ?entry" by simp
    from d len calls nth ful rej pen show ?thesis
      by (intro conjI) assumption+
  qed
  have throws: "dispatch env type0 payload0 s = (s2, tr1 @ tr2, Inl e)"
    if "mapE (wrappedActionHandler env payload) ?entry s1 = (s2, tr2, Inl e)" for s2 tr2 e
    using dispatch_unfold [OF unify entry before run_action_handlers_throws [OF live that]]
    by simp
  note react = dispatch_reactions [of env ?a]
  have w: "wrap_result env False (Plain v) = Inr (Promise_resolve v)"
    "wrap_result env False (Thenable c q) = Inr q"
    "single_result (Promise_resolve v) = Some (0, Fulfils (Single v))"
    by (simp_all add: wrap_result_def single_result_def Promise_resolve_def)
  note reg = registerAction_appends [of t h l x]
  show ?thesis
  proof (intro conjI allI impI)
    fix s2 tr2 ps
    assume st: "mapE (wrappedActionHandler env payload) ?entry s1 = (s2, tr2, Inr ps)"
    note r = returns [OF st]
    show "dispatch env type0 payload0 s =
              (s2, tr1 @ tr2,
               Inr (Some (NewPromise ?a
                 (if length ?entry > 1 then array_result (Promise_all ps)
                  else single_result (hd ps)))))"
      by (rule r [THEN conjunct1])
    show "length ps = length ?entry"
      by (rule r [THEN conjunct2, THEN conjunct1])
    show "action_calls (tr1 @ tr2) = map fst ?entry"
      by (rule r [THEN conjunct2, THEN conjunct2, THEN conjunct1])
    show "\<exists>x1 x' ctx ret.
               action_fn env (fst (?entry ! i)) ctx payload x1 = (x', Inr ret) \<and>
               ctx_local ctx = snd (?entry ! i) \<and>
               getNestedState (state x1) (lc_path (snd (?entry ! i))) = Inr (ctx_state ctx) \<and>
               tr2 ! i = ActionHandlerCall (fst (?entry ! i)) ctx payload \<and>
               wrap_result env (devtoolHook x') ret = Inr (ps ! i)"
      if "i < length ?entry" for i
      using r [THEN conjunct2, THEN conjunct2, THEN conjunct2, THEN conjunct1, rule_format,
          OF that] .
    show "snd (snd (dispatch env type0 payload0 s)) =
                 Inr (Some (NewPromise ?a
                   (Some (foldr max (map fst tvs) 0, Fulfils (Array (map snd tvs))))))"
      if "length ?entry > 1 \<and> ps = map (\<lambda>(t, v). Some (t, Fulfilled v)) tvs" for tvs
      using r [THEN conjunct2, THEN conjunct2, THEN conjunct2, THEN conjunct2, THEN conjunct1,
          rule_format, OF that] .
    show "\<exists>t es. snd (snd (dispatch env type0 payload0 s)) =
                    Inr (Some (NewPromise ?a (Some (t, Rejects es)))) \<and>
                  es \<noteq> [] \<and>
                  (\<forall>e \<in> set es. Some (t, Rejected e) \<in> set ps) \<and>
                  (\<forall>t' e'. Some (t', Rejected e') \<in> set ps \<longrightarrow>
                     t \<le> t' \<and> (t' = t \<longrightarrow> e' \<in> set es))"
      if "length ?entry > 1 \<and> Some (t0, Rejected e0) \<in> set ps" for t0 e0
      using r [THEN conjunct2, THEN conjunct2, THEN conjunct2, THEN conjunct2, THEN conjunct2,
          THEN conjunct1, rule_format, OF that] .
    show "snd (snd (dispatch env type0 payload0 s)) = Inr (Some (NewPromise ?a None))"
      if "length ?entry > 1 \<and> None \<in> set ps \<and> (\<forall>t e. Some (t, Rejected e) \<notin> set ps)"
      using r [THEN conjunct2, THEN conjunct2, THEN conjunct2, THEN conjunct2, THEN conjunct2,
          THEN conjunct2, THEN mp, OF that] .
  next
    fix s2 tr2 e
    assume "mapE (wrappedActionHandler env payload) ?entry s1 = (s2, tr2, Inl e)"
    then show "dispatch env type0 payload0 s = (s2, tr1 @ tr2, Inl e)"
      by (rule throws)
  next
    fix res x
    show "\<exists>x' tr. dispatch_onFulfilled env ?a res x = (x', tr, Some (Fulfilled res))"
      by (rule react(1))
  next
    fix err x
    show "\<exists>x' tr. dispatch_onRejected env ?a err x = (x', tr, Some (Rejected err))"
      by (rule react(2))
  qed (rule w reg)+
qed

text \<open>
  On the example store: two handlers that are fulfilled; four handlers of which two are
  rejected in turn 1 while another stays pending; one handler returning a plain value; and
  two handlers of which the second throws.
\<close>

theorem dispatch_aggregates_handlers_witness:
  "dispatch example_env (Str ''go'') Undefined
     (example_store\<lparr>actions := [(''go'', 0)],
        action_arrays := [(0, [(30, root_local), (31, root_local)])]\<rparr>) =
     (example_store\<lparr>actions := [(''go'', 0)],
        action_arrays := [(0, [(30, root_local), (31, root_local)])]\<rparr>,
      [ActionHandlerCall 30 example_ctx Undefined, ActionHandlerCall 31 example_ctx Undefined],
      Inr (Some (NewPromise (Obj [(''type'', Str ''go''), (''payload'', Undefined)])
        (Some (2, Fulfils (Array [Num 1, Num 2])))))) \<and>
   snd (snd (dispatch example_env (Str ''go'') Undefined
     (example_store\<lparr>actions := [(''go'', 0)],
        action_arrays :=
          [(0, [(31, root_local), (32, root_local), (35, root_local), (33, root_local)])]\<rparr>))) =
     Inr (Some (NewPromise (Obj [(''type'', Str ''go''), (''payload'', Undefined)])
       (Some (1, Rejects [Str ''no'', Str ''never''])))) \<and>
   snd (snd (dispatch example_env (Str ''go'') Undefined
     (example_store\<lparr>actions := [(''go'', 0)], action_arrays := [(0, [(30, root_local)])]\<rparr>))) =
     Inr (Some (NewPromise (Obj [(''type'', Str ''go''), (''payload'', Undefined)])
       (Some (0, Fulfils (Single (Num 1)))))) \<and>
   dispatch example_env (Str ''go'') Undefined
     (example_store\<lparr>actions := [(''go'', 0)],
        action_arrays := [(0, [(30, root_local), (34, root_local)])]\<rparr>) =
     (example_store\<lparr>actions := [(''go'', 0)],
        action_arrays := [(0, [(30, root_local), (34, root_local)])]\<rparr>,
      [ActionHandlerCall 30 example_ctx Undefined, ActionHandlerCall 34 example_ctx Undefined],
      Inl (Thrown (Str ''action''))) \<and>
   (\<exists>x' tr. dispatch_onRejected example_env
        (Obj [(''type'', Str ''go''), (''payload'', Undefined)]) (Str ''no'') example_store =
      (x', tr, Some (Rejected (Str ''no''))))"
proof -
  let ?a = "Obj [(''type'', Str ''go''), (''payload'', Undefined)]"
  let ?s = "example_store\<lparr>actions := [(''go'', 0)],
        action_arrays := [(0, [(30, root_local), (31, root_local)])]\<rparr>"
  let ?r = "example_store\<lparr>actions := [(''go'', 0)],
        action_arrays :=
          [(0, [(31, root_local), (32, root_local), (35, root_local), (33, root_local)])]\<rparr>"
  let ?o = "example_store\<lparr>actions := [(''go'', 0)], action_arrays := [(0, [(30, root_local)])]\<rparr>"
  let ?t = "example_store\<lparr>actions := [(''go'', 0)],
        action_arrays := [(0, [(30, root_local), (34, root_local)])]\<rparr>"
  note defs = wrappedActionHandler_def local_getters_def root_local_def makeLocalContext_def
    example_env_def example_store_def example_ctx_def Promise_resolve_def wrap_result_def
  have u: "unifyObjectStyle example_env (Str ''go'') Undefined Undefined =
      Inr (Str ''go'', Undefined, Undefined)"
    by (simp add: unifyObjectStyle_def example_env_def)
  have b: "before_subscribers example_env ?a x = (x, [], Inr ())"
    if "actionSubscribers x = []" for x
    using that by (simp add: before_subscribers_def try_report_def List.map_filter_def)
  have ms: "map_of (actions ?s) (property_key example_env (Str ''go'')) = Some 0"
    by (simp add: property_key_def)
  have as: "array_at ?s 0 = [(30, root_local), (31, root_local)]"
    by (simp add: array_at_def)
  have fs: "mapE (wrappedActionHandler example_env Undefined) (array_at ?s 0) ?s =
      (?s, [ActionHandlerCall 30 example_ctx Undefined, ActionHandlerCall 31 example_ctx Undefined],
       Inr [Some (0, Fulfilled (Num 1)), Some (2, Fulfilled (Num 2))])"
    unfolding as by (simp add: defs)
  have bs: "before_subscribers example_env ?a ?s = (?s, [], Inr ())"
    by (rule b) (simp add: example_store_def)
  have ls: "array_at ?s 0 \<noteq> []"
    by (simp add: as)
  from dispatch_aggregates_handlers [OF u ms bs ls, THEN conjunct1, rule_format, OF fs,
      THEN conjunct1]
  have 1: "dispatch example_env (Str ''go'') Undefined ?s =
     (?s, [ActionHandlerCall 30 example_ctx Undefined, ActionHandlerCall 31 example_ctx Undefined],
      Inr (Some (NewPromise ?a (Some (2, Fulfils (Array [Num 1, Num 2]))))))"
    by (simp add: as Promise_all_def array_result_def)
  have mr: "map_of (actions ?r) (property_key example_env (Str ''go'')) = Some 0"
    by (simp add: property_key_def)
  have ar: "array_at ?r 0 =
      [(31, root_local), (32, root_local), (35, root_local), (33, root_local)]"
    by (simp add: array_at_def)
  have fr: "mapE (wrappedActionHandler example_env Undefined) (array_at ?r 0) ?r =
      (?r, [ActionHandlerCall 31 example_ctx Undefined, ActionHandlerCall 32 example_ctx Undefined,
            ActionHandlerCall 35 example_ctx Undefined, ActionHandlerCall 33 example_ctx Undefined],
       Inr [Some (2, Fulfilled (Num 2)), Some (1, Rejected (Str ''no'')),
            Some (1, Rejected (Str ''never'')), None])"
    unfolding ar by (simp add: defs)
  have br: "before_subscribers example_env ?a ?r = (?r, [], Inr ())"
    by (rule b) (simp add: example_store_def)
  have lr: "array_at ?r 0 \<noteq> []"
    by (simp add: ar)
  from dispatch_aggregates_handlers [OF u mr br lr, THEN conjunct1, rule_format, OF fr,
      THEN conjunct1]
  have 2: "snd (snd (dispatch example_env (Str ''go'') Undefined ?r)) =
      Inr (Some (NewPromise ?a (Some (1, Rejects [Str ''no'', Str ''never'']))))"
    by (simp add: ar Promise_all_def array_result_def)
  have mo: "map_of (actions ?o) (property_key example_env (Str ''go'')) = Some 0"
    by (simp add: property_key_def)
  have ao: "array_at ?o 0 = [(30, root_local)]"
    by (simp add: array_at_def)
  have fo: "mapE (wrappedActionHandler example_env Undefined) (array_at ?o 0) ?o =
      (?o, [ActionHandlerCall 30 example_ctx Undefined], Inr [Some (0, Fulfilled (Num 1))])"
    unfolding ao by (simp add: defs)
  have bo: "before_subscribers example_env ?a ?o = (?o, [], Inr ())"
    by (rule b) (simp add: example_store_def)
  have lo: "array_at ?o 0 \<noteq> []"
    by (simp add: ao)
  from dispatch_aggregates_handlers [OF u mo bo lo, THEN conjunct1, rule_format, OF fo,
      THEN conjunct1]
  have 3: "snd (snd (dispatch example_env (Str ''go'') Undefined ?o)) =
      Inr (Some (NewPromise ?a (Some (0, Fulfils (Single (Num 1))))))"
    by (simp add: ao single_result_def)
  have mt: "map_of (actions ?t) (property_key example_env (Str ''go'')) = Some 0"
    by (simp add: property_key_def)
  have at: "array_at ?t 0 = [(30, root_local), (34, root_local)]"
    by (simp add: array_at_def)
  have ft: "mapE (wrappedActionHandler example_env Undefined) (array_at ?t 0) ?t =
      (?t, [ActionHandlerCall 30 example_ctx Undefined, ActionHandlerCall 34 example_ctx Undefined],
       Inl (Thrown (Str ''action'')))"
    unfolding at by (simp add: defs)
  have bt: "before_subscribers example_env ?a ?t = (?t, [], Inr ())"
    by (rule b) (simp add: example_store_def)
  have lt: "array_at ?t 0 \<noteq> []"
    by (simp add: at)
  from dispatch_aggregates_handlers [OF u mt bt lt, THEN conjunct2, THEN conjunct1,
      rule_format, OF ft]
  have 4: "dispatch example_env (Str ''go'') Undefined ?t =
     (?t, [ActionHandlerCall 30 example_ctx Undefined, ActionHandlerCall 34 example_ctx Undefined],
      Inl (Thrown (Str ''action'')))"
    by simp
  from dispatch_aggregates_handlers [OF u mt bt lt, THEN conjunct2, THEN conjunct2,
      THEN conjunct2, THEN conjunct1, rule_format, of "Str ''no''" example_store]
  have 5: "\<exists>x' tr. dispatch_onRejected example_env ?a (Str ''no'') example_store =
      (x', tr, Some (Rejected (Str ''no'')))" .
  from 1 2 3 4 5 show ?thesis
    by (intro conjI) assumption+
qed

section \<open>Dispatch: exceptions of action subscribers\<close>

text \<open>
  C10. Take a dispatch of a registered type, and let \<open>f\<close> be the first \<^verbatim>\<open>before\<close>
  function that throws, with the functions \<open>pre\<close> in front of it in the list and the
  functions \<open>post\<close> behind it. One \<^verbatim>\<open>try\<close> holds the whole loop: the functions of
  \<open>post\<close> are not called, the \<^verbatim>\<open>before\<close> calls of the dispatch are those of \<open>pre\<close> and
  \<open>f\<close>. The exception is reported in a development build, and the dispatch goes on
  with its handlers from the store \<open>s1\<close> that \<open>f\<close> left. The handlers are the elements
  that the array of the type holds in \<open>s1\<close>, those that a \<^verbatim>\<open>before\<close> function has
  registered among them. The dispatch ends as the handlers do, and when they return (none
  throws) every handler has been called, in order, and the dispatch returns the promise of
  their results.
\<close>

theorem before_subscriber_throws:
  assumes unify: "unifyObjectStyle env type0 payload0 Undefined = Inr (type, payload, options)"
    and entry: "map_of (actions s) (property_key env type) = Some entry"
    and subs: "List.map_filter sub_before (actionSubscribers s) = pre @ f # post"
    and pre_ok: "forEach (call_action_subscriber env Before
        (Obj [(''type'', type), (''payload'', payload)]) None) pre s = (sk, trk, Inr ())"
    and throws: "action_subscriber_fn env f (Obj [(''type'', type), (''payload'', payload)])
        (state sk) None sk = (s1, Some e)"
  shows "\<exists>s2 tr2 r.
     run_action_handlers env payload (array_at s1 entry) s1 = (s2, tr2, r) \<and>
     dispatch env type0 payload0 s =
       (s2,
        trk @ ActionSubscriberCall Before f (Obj [(''type'', type), (''payload'', payload)])
                (state sk) None #
          (if DEV env
           then [ConsoleWarn ''[vuex] error in before action subscribers: '', ConsoleErrorValue e]
           else []) @ tr2,
        case r of
          Inl e' \<Rightarrow> Inl e'
        | Inr result \<Rightarrow>
            Inr (Some (NewPromise (Obj [(''type'', type), (''payload'', payload)]) result))) \<and>
     observer_calls Before (fst (snd (dispatch env type0 payload0 s))) = pre @ [f] \<and>
     (\<forall>x tr' ps. array_at s1 entry \<noteq> [] \<and>
        mapE (wrappedActionHandler env payload) (array_at s1 entry) s1 = (x, tr', Inr ps) \<longrightarrow>
          action_calls (fst (snd (dispatch env type0 payload0 s))) = map fst (array_at s1 entry) \<and>
          snd (snd (dispatch env type0 payload0 s)) =
            Inr (Some (NewPromise (Obj [(''type'', type), (''payload'', payload)])
              (if length (array_at s1 entry) > 1 then array_result (Promise_all ps)
               else single_result (hd ps)))))"
proof -
  let ?a = "Obj [(''type'', type), (''payload'', payload)]"
  let ?entry = "array_at s1 entry"
  let ?call = "ActionSubscriberCall Before f ?a (state sk) None"
  let ?report = "if DEV env
           then [ConsoleWarn ''[vuex] error in before action subscribers: '', ConsoleErrorValue e]
           else []"
  obtain s2 tr2 r where run: "run_action_handlers env payload ?entry s1 = (s2, tr2, r)"
    by (cases "run_action_handlers env payload ?entry s1") auto
  have b: "before_subscribers env ?a s = (s1, trk @ ?call # ?report, Inr ())"
    unfolding before_subscribers_def by (rule try_report_throw(1) [OF subs pre_ok throws])
  have d: "dispatch env type0 payload0 s =
      (s2, trk @ ?call # ?report @ tr2,
       case r of Inl e' \<Rightarrow> Inl e' | Inr result \<Rightarrow> Inr (Some (NewPromise ?a result)))"
    using dispatch_unfold [OF unify entry b run] by simp
  note p = forEach_observers_all [OF pre_ok]
  have "observer_calls Before (?call # ?report @ tr2) = [f]"
    using run_action_handlers_trace [OF run, of Before]
    by (simp add: observer_calls_def List.map_filter_def)
  with p have obs: "observer_calls Before (trk @ ?call # ?report @ tr2) = pre @ [f]"
    by (simp add: observer_calls_append)
  have act: "action_calls (trk @ ?call # ?report @ tr2) = action_calls tr2"
    using p by (simp add: action_calls_append) (simp add: action_calls_def List.map_filter_def)
  have hs: "\<forall>x tr' ps. ?entry \<noteq> [] \<and>
        mapE (wrappedActionHandler env payload) ?entry s1 = (x, tr', Inr ps) \<longrightarrow>
          action_calls (fst (snd (dispatch env type0 payload0 s))) = map fst ?entry \<and>
          snd (snd (dispatch env type0 payload0 s)) =
            Inr (Some (NewPromise ?a
              (if length ?entry > 1 then array_result (Promise_all ps)
               else single_result (hd ps))))"
  proof (intro allI impI)
    fix x tr' ps
    assume a: "?entry \<noteq> [] \<and>
        mapE (wrappedActionHandler env payload) ?entry s1 = (x, tr', Inr ps)"
    then have m: "mapE (wrappedActionHandler env payload) ?entry s1 = (x, tr', Inr ps)"
      and ne: "?entry \<noteq> []"
      by simp_all
    from run_action_handlers_mapE [OF ne m] run
    have eq: "tr2 = tr'" "r = Inr (if length ?entry > 1 then array_result (Promise_all ps)
                       else single_result (hd ps))"
      by simp_all
    from mapE_handlers [OF m] have "action_calls tr' = map fst ?entry"
      by simp
    with d act eq show "action_calls (fst (snd (dispatch env type0 payload0 s))) = map fst ?entry \<and>
          snd (snd (dispatch env type0 payload0 s)) =
            Inr (Some (NewPromise ?a
              (if length ?entry > 1 then array_result (Promise_all ps)
               else single_result (hd ps))))"
      by simp
  qed
  from d obs have obs': "observer_calls Before (fst (snd (dispatch env type0 payload0 s))) = pre @ [f]"
    by simp
  from run d obs' hs show ?thesis
    by (intro exI [of _ s2] exI [of _ tr2] exI [of _ r] conjI) assumption+
qed

text \<open>
  On the example store with one handler and three action subscribers: the \<^verbatim>\<open>before\<close>
  function of the first registers a second handler for the type, that of the second throws,
  and that of the third is not called. Both handlers run.
\<close>

theorem before_subscriber_throws_witness:
  "dispatch example_env (Str ''go'') Undefined
     (example_store\<lparr>actions := [(''go'', 0)], action_arrays := [(0, [(30, root_local)])],
        actionSubscribers := [observer 45, observer 40, observer 42]\<rparr>) =
     (example_store\<lparr>actions := [(''go'', 0)],
        action_arrays := [(0, [(30, root_local), (31, root_local)])],
        actionSubscribers := [observer 45, observer 40, observer 42]\<rparr>,
      [ActionSubscriberCall Before 45 (Obj [(''type'', Str ''go''), (''payload'', Undefined)])
         (Obj [(''count'', Num 0)]) None,
       ActionSubscriberCall Before 40 (Obj [(''type'', Str ''go''), (''payload'', Undefined)])
         (Obj [(''count'', Num 0)]) None,
       ConsoleWarn ''[vuex] error in before action subscribers: '',
       ConsoleErrorValue (Thrown (Str ''observer'')),
       ActionHandlerCall 30 example_ctx Undefined,
       ActionHandlerCall 31 example_ctx Undefined],
      Inr (Some (NewPromise (Obj [(''type'', Str ''go''), (''payload'', Undefined)])
        (Some (2, Fulfils (Array [Num 1, Num 2])))))) \<and>
   observer_calls Before (fst (snd (dispatch example_env (Str ''go'') Undefined
     (example_store\<lparr>actions := [(''go'', 0)], action_arrays := [(0, [(30, root_local)])],
        actionSubscribers := [observer 45, observer 40, observer 42]\<rparr>)))) = [45, 40]"
proof -
  let ?a = "Obj [(''type'', Str ''go''), (''payload'', Undefined)]"
  let ?s = "example_store\<lparr>actions := [(''go'', 0)], action_arrays := [(0, [(30, root_local)])],
        actionSubscribers := [observer 45, observer 40, observer 42]\<rparr>"
  let ?s1 = "example_store\<lparr>actions := [(''go'', 0)],
        action_arrays := [(0, [(30, root_local), (31, root_local)])],
        actionSubscribers := [observer 45, observer 40, observer 42]\<rparr>"
  let ?trk = "[ActionSubscriberCall Before 45 ?a (Obj [(''count'', Num 0)]) None]"
  note defs = wrappedActionHandler_def local_getters_def root_local_def makeLocalContext_def
    example_env_def example_store_def example_ctx_def Promise_resolve_def wrap_result_def
    call_action_subscriber_def registerAction_def array_at_def
  have u: "unifyObjectStyle example_env (Str ''go'') Undefined Undefined =
      Inr (Str ''go'', Undefined, Undefined)"
    by (simp add: unifyObjectStyle_def example_env_def)
  have m: "map_of (actions ?s) (property_key example_env (Str ''go'')) = Some 0"
    by (simp add: property_key_def)
  have subs: "List.map_filter sub_before (actionSubscribers ?s) = [45] @ 40 # [42]"
    by (simp add: List.map_filter_def observer_def)
  have pre: "forEach (call_action_subscriber example_env Before ?a None) [45] ?s =
      (?s1, ?trk, Inr ())"
    by (simp add: defs)
  have th: "action_subscriber_fn example_env 40 ?a (state ?s1) None ?s1 =
      (?s1, Some (Thrown (Str ''observer'')))"
    by (simp add: example_env_def)
  have live: "array_at ?s1 0 = [(30, root_local), (31, root_local)]"
    by (simp add: array_at_def)
  have run: "run_action_handlers example_env Undefined (array_at ?s1 0) ?s1 =
      (?s1, [ActionHandlerCall 30 example_ctx Undefined, ActionHandlerCall 31 example_ctx Undefined],
       Inr (Some (2, Fulfils (Array [Num 1, Num 2]))))"
    unfolding live
    by (simp add: run_action_handlers_def array_result_def Promise_all_def defs)
  have dev: "DEV example_env"
    by (simp add: example_env_def)
  from before_subscriber_throws [OF u m subs pre th] obtain s2 tr2 r where
    r: "run_action_handlers example_env Undefined (array_at ?s1 0) ?s1 = (s2, tr2, r)"
    and d: "dispatch example_env (Str ''go'') Undefined ?s =
       (s2, ?trk @ ActionSubscriberCall Before 40 ?a (state ?s1) None #
          (if DEV example_env
           then [ConsoleWarn ''[vuex] error in before action subscribers: '',
                 ConsoleErrorValue (Thrown (Str ''observer''))]
           else []) @ tr2,
        case r of Inl e' \<Rightarrow> Inl e' | Inr result \<Rightarrow> Inr (Some (NewPromise ?a result)))"
    and o: "observer_calls Before (fst (snd (dispatch example_env (Str ''go'') Undefined ?s))) =
       [45] @ [40]"
    by blast
  from r run have "s2 = ?s1"
    "tr2 = [ActionHandlerCall 30 example_ctx Undefined, ActionHandlerCall 31 example_ctx Undefined]"
    "r = Inr (Some (2, Fulfils (Array [Num 1, Num 2])))"
    by simp_all
  with d dev have "dispatch example_env (Str ''go'') Undefined ?s =
     (?s1, [ActionSubscriberCall Before 45 ?a (Obj [(''count'', Num 0)]) None,
       ActionSubscriberCall Before 40 ?a (Obj [(''count'', Num 0)]) None,
       ConsoleWarn ''[vuex] error in before action subscribers: '',
       ConsoleErrorValue (Thrown (Str ''observer'')),
       ActionHandlerCall 30 example_ctx Undefined,
       ActionHandlerCall 31 example_ctx Undefined],
      Inr (Some (NewPromise ?a (Some (2, Fulfils (Array [Num 1, Num 2]))))))"
    by (simp add: example_store_def)
  with o show ?thesis
    by simp
qed

text \<open>
  The loop of \<^verbatim>\<open>commit\<close> over its subscribers stands in no \<^verbatim>\<open>try\<close>: an exception of
  the first subscriber ends the commit.
\<close>

lemma commit_subscriber_throws:
  assumes "unifyObjectStyle env type0 payload0 options0 = Inr (type, payload, options)"
    and "map_of (mutations s) (property_key env type) = Some entry"
    and "forEach (wrappedMutationHandler env payload) entry (s\<lparr>committing := True\<rparr>) =
      (s1, tr1, Inr ())"
    and "subscribers s1 = sub # rest"
    and "subscriber_fn env sub (Obj [(''type'', type), (''payload'', payload)]) (state s1)
      (s1\<lparr>committing := committing s\<rparr>) = (s2, Some e)"
  shows "commit env type0 payload0 options0 s =
     (s2, tr1 @ [SubscriberCall sub (Obj [(''type'', type), (''payload'', payload)]) (state s1)],
      Inl e)"
  using assms by (simp add: commit_def withCommit_def call_subscriber_def)

text \<open>
  C4, as stated, fails: a subscriber's exception is caught by a \<^verbatim>\<open>try\<close> around the whole
  loop, so the subscribers behind it do not run. On the example store with two action
  subscribers, the first of which throws from its \<^verbatim>\<open>before\<close> function, the second one's
  \<^verbatim>\<open>before\<close> function is never called.
\<close>

theorem subscriber_exception_skips_rest_counterexample:
  "List.map_filter sub_before (actionSubscribers
     (example_store\<lparr>actions := [(''go'', 0)], action_arrays := [(0, [(30, root_local)])],
        actionSubscribers := [observer 40, observer 41]\<rparr>)) = [40, 41] \<and>
   dispatch example_env (Str ''go'') Undefined
     (example_store\<lparr>actions := [(''go'', 0)], action_arrays := [(0, [(30, root_local)])],
        actionSubscribers := [observer 40, observer 41]\<rparr>) =
     (example_store\<lparr>actions := [(''go'', 0)], action_arrays := [(0, [(30, root_local)])],
        actionSubscribers := [observer 40, observer 41]\<rparr>,
      [ActionSubscriberCall Before 40 (Obj [(''type'', Str ''go''), (''payload'', Undefined)])
         (Obj [(''count'', Num 0)]) None,
       ConsoleWarn ''[vuex] error in before action subscribers: '',
       ConsoleErrorValue (Thrown (Str ''observer'')),
       ActionHandlerCall 30 example_ctx Undefined],
      Inr (Some (NewPromise (Obj [(''type'', Str ''go''), (''payload'', Undefined)])
        (Some (0, Fulfils (Single (Num 1))))))) \<and>
   observer_calls Before (fst (snd (dispatch example_env (Str ''go'') Undefined
     (example_store\<lparr>actions := [(''go'', 0)], action_arrays := [(0, [(30, root_local)])],
        actionSubscribers := [observer 40, observer 41]\<rparr>)))) = [40]"
  by (simp add: observer_calls_def dispatch_def unifyObjectStyle_def property_key_def
      before_subscribers_def try_report_def run_action_handlers_def single_result_def
      List.map_filter_def observer_def array_at_def wrap_result_def
      wrappedActionHandler_def local_getters_def root_local_def makeLocalContext_def
      example_env_def example_store_def example_ctx_def Promise_resolve_def
      call_action_subscriber_def Let_def)

text \<open>
  C4, amended. In a dispatch, an exception thrown by a \<^verbatim>\<open>before\<close>, \<^verbatim>\<open>after\<close> or
  \<^verbatim>\<open>error\<close> function of an action subscriber is caught, and reported in a development
  build; it ends the loop of its phase, and it never interrupts the dispatch.

  Let \<open>f\<close> be the first function of a phase that throws, with the functions \<open>pre\<close> in
  front of it in the list and the functions \<open>post\<close> behind it. The loop has called the
  functions of \<open>pre\<close> and \<open>f\<close> and none of \<open>post\<close>; the exception is written to the
  console in a development build; the store is the one that \<open>f\<close> left. After the
  \<^verbatim>\<open>before\<close> loop the dispatch goes on; after the \<^verbatim>\<open>after\<close> loop the reaction resolves
  the promise of the dispatch with the result; after the \<^verbatim>\<open>error\<close> loop the reaction
  rejects it with the action's own error. When no function of a phase throws, the loop has
  called all of them, and the same follows. A loop that throws has a first function that
  throws, so this is all a loop can do.

  Hence the loop over the \<^verbatim>\<open>before\<close> functions always returns, the handlers run after
  it on the store that it leaves, and the dispatch ends as the handlers do.
\<close>

theorem action_subscriber_exceptions_caught:
  "(\<forall>pre f post sk trk s1 e.
      List.map_filter sub_before (actionSubscribers s) = pre @ f # post \<and>
      forEach (call_action_subscriber env Before a None) pre s = (sk, trk, Inr ()) \<and>
      action_subscriber_fn env f a (state sk) None sk = (s1, Some e) \<longrightarrow>
        before_subscribers env a s =
          (s1,
           trk @ ActionSubscriberCall Before f a (state sk) None #
             (if DEV env
              then [ConsoleWarn ''[vuex] error in before action subscribers: '',
                    ConsoleErrorValue e]
              else []),
           Inr ()) \<and>
        observer_calls Before (fst (snd (before_subscribers env a s))) = pre @ [f]) \<and>
   (\<forall>pre f post sk trk s1 e.
      List.map_filter sub_after (actionSubscribers s) = pre @ f # post \<and>
      forEach (call_action_subscriber env After a None) pre s = (sk, trk, Inr ()) \<and>
      action_subscriber_fn env f a (state sk) None sk = (s1, Some e) \<longrightarrow>
        dispatch_onFulfilled env a res s =
          (s1,
           trk @ ActionSubscriberCall After f a (state sk) None #
             (if DEV env
              then [ConsoleWarn ''[vuex] error in after action subscribers: '',
                    ConsoleErrorValue e]
              else []),
           Some (Fulfilled res)) \<and>
        observer_calls After (fst (snd (dispatch_onFulfilled env a res s))) = pre @ [f]) \<and>
   (\<forall>pre f post sk trk s1 e.
      List.map_filter sub_error (actionSubscribers s) = pre @ f # post \<and>
      forEach (call_action_subscriber env OnError a (Some err)) pre s = (sk, trk, Inr ()) \<and>
      action_subscriber_fn env f a (state sk) (Some err) sk = (s1, Some e) \<longrightarrow>
        dispatch_onRejected env a err s =
          (s1,
           trk @ ActionSubscriberCall OnError f a (state sk) (Some err) #
             (if DEV env
              then [ConsoleWarn ''[vuex] error in error action subscribers: '',
                    ConsoleErrorValue e]
              else []),
           Some (Rejected err)) \<and>
        observer_calls OnError (fst (snd (dispatch_onRejected env a err s))) = pre @ [f]) \<and>
   (\<forall>s' tr.
      forEach (call_action_subscriber env Before a None)
        (List.map_filter sub_before (actionSubscribers s)) s = (s', tr, Inr ()) \<longrightarrow>
        before_subscribers env a s = (s', tr, Inr ()) \<and>
        observer_calls Before tr = List.map_filter sub_before (actionSubscribers s)) \<and>
   (\<forall>s' tr.
      forEach (call_action_subscriber env After a None)
        (List.map_filter sub_after (actionSubscribers s)) s = (s', tr, Inr ()) \<longrightarrow>
        dispatch_onFulfilled env a res s = (s', tr, Some (Fulfilled res)) \<and>
        observer_calls After tr = List.map_filter sub_after (actionSubscribers s)) \<and>
   (\<forall>s' tr.
      forEach (call_action_subscriber env OnError a (Some err))
        (List.map_filter sub_error (actionSubscribers s)) s = (s', tr, Inr ()) \<longrightarrow>
        dispatch_onRejected env a err s = (s', tr, Some (Rejected err)) \<and>
        observer_calls OnError tr = List.map_filter sub_error (actionSubscribers s)) \<and>
   (\<forall>ph arg fs s' tr e.
      forEach (call_action_subscriber env ph a arg) fs s = (s', tr, Inl e) \<longrightarrow>
        (\<exists>pre f post sk trk. fs = pre @ f # post \<and>
           forEach (call_action_subscriber env ph a arg) pre s = (sk, trk, Inr ()) \<and>
           action_subscriber_fn env f a (state sk) arg sk = (s', Some e))) \<and>
   (\<forall>type0 payload0 type payload options entry.
      unifyObjectStyle env type0 payload0 Undefined = Inr (type, payload, options) \<and>
      map_of (actions s) (property_key env type) = Some entry \<longrightarrow>
        (\<exists>s1 tr1 s2 tr2 r.
           before_subscribers env (Obj [(''type'', type), (''payload'', payload)]) s =
             (s1, tr1, Inr ()) \<and>
           run_action_handlers env payload (array_at s1 entry) s1 = (s2, tr2, r) \<and>
           dispatch env type0 payload0 s =
             (s2, tr1 @ tr2,
              case r of
                Inl e \<Rightarrow> Inl e
              | Inr result \<Rightarrow>
                  Inr (Some (NewPromise (Obj [(''type'', type), (''payload'', payload)])
                    result)))))"
proof (intro conjI allI impI)
  fix pre f post sk trk s1 e
  assume h: "List.map_filter sub_before (actionSubscribers s) = pre @ f # post \<and>
      forEach (call_action_subscriber env Before a None) pre s = (sk, trk, Inr ()) \<and>
      action_subscriber_fn env f a (state sk) None sk = (s1, Some e)"
  note t = try_report_throw [OF h [THEN conjunct1] h [THEN conjunct2, THEN conjunct1]
      h [THEN conjunct2, THEN conjunct2],
      where msg = "''[vuex] error in before action subscribers: ''"]
  from t(1) show b: "before_subscribers env a s =
          (s1,
           trk @ ActionSubscriberCall Before f a (state sk) None #
             (if DEV env
              then [ConsoleWarn ''[vuex] error in before action subscribers: '',
                    ConsoleErrorValue e]
              else []),
           Inr ())"
    by (simp add: before_subscribers_def)
  from t(2) b show "observer_calls Before (fst (snd (before_subscribers env a s))) = pre @ [f]"
    by simp
next
  fix pre f post sk trk s1 e
  assume h: "List.map_filter sub_after (actionSubscribers s) = pre @ f # post \<and>
      forEach (call_action_subscriber env After a None) pre s = (sk, trk, Inr ()) \<and>
      action_subscriber_fn env f a (state sk) None sk = (s1, Some e)"
  note t = try_report_throw [OF h [THEN conjunct1] h [THEN conjunct2, THEN conjunct1]
      h [THEN conjunct2, THEN conjunct2],
      where msg = "''[vuex] error in after action subscribers: ''"]
  from t(1) show b: "dispatch_onFulfilled env a res s =
          (s1,
           trk @ ActionSubscriberCall After f a (state sk) None #
             (if DEV env
              then [ConsoleWarn ''[vuex] error in after action subscribers: '',
                    ConsoleErrorValue e]
              else []),
           Some (Fulfilled res))"
    by (simp add: dispatch_onFulfilled_def after_subscribers_def)
  from t(2) b show "observer_calls After (fst (snd (dispatch_onFulfilled env a res s))) = pre @ [f]"
    by simp
next
  fix pre f post sk trk s1 e
  assume h: "List.map_filter sub_error (actionSubscribers s) = pre @ f # post \<and>
      forEach (call_action_subscriber env OnError a (Some err)) pre s = (sk, trk, Inr ()) \<and>
      action_subscriber_fn env f a (state sk) (Some err) sk = (s1, Some e)"
  note t = try_report_throw [OF h [THEN conjunct1] h [THEN conjunct2, THEN conjunct1]
      h [THEN conjunct2, THEN conjunct2],
      where msg = "''[vuex] error in error action subscribers: ''"]
  from t(1) show b: "dispatch_onRejected env a err s =
          (s1,
           trk @ ActionSubscriberCall OnError f a (state sk) (Some err) #
             (if DEV env
              then [ConsoleWarn ''[vuex] error in error action subscribers: '',
                    ConsoleErrorValue e]
              else []),
           Some (Rejected err))"
    by (simp add: dispatch_onRejected_def error_subscribers_def)
  from t(2) b show "observer_calls OnError (fst (snd (dispatch_onRejected env a err s))) = pre @ [f]"
    by simp
next
  fix s' tr
  assume h: "forEach (call_action_subscriber env Before a None)
        (List.map_filter sub_before (actionSubscribers s)) s = (s', tr, Inr ())"
  note t = try_report_return(1) [OF h, where msg = "''[vuex] error in before action subscribers: ''"]
    try_report_return(2) [OF h]
  from t(1) show "before_subscribers env a s = (s', tr, Inr ())"
    by (simp add: before_subscribers_def)
  from t(2) show "observer_calls Before tr = List.map_filter sub_before (actionSubscribers s)" .
next
  fix s' tr
  assume h: "forEach (call_action_subscriber env After a None)
        (List.map_filter sub_after (actionSubscribers s)) s = (s', tr, Inr ())"
  note t = try_report_return(1) [OF h, where msg = "''[vuex] error in after action subscribers: ''"]
    try_report_return(2) [OF h]
  from t(1) show "dispatch_onFulfilled env a res s = (s', tr, Some (Fulfilled res))"
    by (simp add: dispatch_onFulfilled_def after_subscribers_def)
  from t(2) show "observer_calls After tr = List.map_filter sub_after (actionSubscribers s)" .
next
  fix s' tr
  assume h: "forEach (call_action_subscriber env OnError a (Some err))
        (List.map_filter sub_error (actionSubscribers s)) s = (s', tr, Inr ())"
  note t = try_report_return(1) [OF h, where msg = "''[vuex] error in error action subscribers: ''"]
    try_report_return(2) [OF h]
  from t(1) show "dispatch_onRejected env a err s = (s', tr, Some (Rejected err))"
    by (simp add: dispatch_onRejected_def error_subscribers_def)
  from t(2) show "observer_calls OnError tr = List.map_filter sub_error (actionSubscribers s)" .
next
  fix ph arg fs s' tr e
  assume "forEach (call_action_subscriber env ph a arg) fs s = (s', tr, Inl e)"
  then show "\<exists>pre f post sk trk. fs = pre @ f # post \<and>
           forEach (call_action_subscriber env ph a arg) pre s = (sk, trk, Inr ()) \<and>
           action_subscriber_fn env f a (state sk) arg sk = (s', Some e)"
    by (rule forEach_first_throw)
next
  fix type0 payload0 type payload options entry
  let ?a = "Obj [(''type'', type), (''payload'', payload)]"
  assume h: "unifyObjectStyle env type0 payload0 Undefined = Inr (type, payload, options) \<and>
    map_of (actions s) (property_key env type) = Some entry"
  obtain s1 tr1 r1 where b: "before_subscribers env ?a s = (s1, tr1, r1)"
    by (cases "before_subscribers env ?a s") auto
  from try_report_observers [OF b [unfolded before_subscribers_def]]
  have r1: "r1 = Inr ()" by simp
  obtain s2 tr2 r where run: "run_action_handlers env payload (array_at s1 entry) s1 = (s2, tr2, r)"
    by (cases "run_action_handlers env payload (array_at s1 entry) s1") auto
  from dispatch_unfold [OF h [THEN conjunct1] h [THEN conjunct2] b run]
  have d: "dispatch env type0 payload0 s =
      (s2, tr1 @ tr2,
       case r of Inl e \<Rightarrow> Inl e | Inr result \<Rightarrow> Inr (Some (NewPromise ?a result)))" .
  from b [unfolded r1] run d show "\<exists>s1 tr1 s2 tr2 r.
           before_subscribers env ?a s = (s1, tr1, Inr ()) \<and>
           run_action_handlers env payload (array_at s1 entry) s1 = (s2, tr2, r) \<and>
           dispatch env type0 payload0 s =
             (s2, tr1 @ tr2,
              case r of Inl e \<Rightarrow> Inl e | Inr result \<Rightarrow> Inr (Some (NewPromise ?a result)))"
    by (intro exI [of _ s1] exI [of _ tr1] exI [of _ s2] exI [of _ tr2] exI [of _ r] conjI)
      assumption+
qed

text \<open>
  On the example store with three action subscribers, the second of which throws in every
  phase, and with two action subscribers none of which throws.
\<close>

theorem action_subscriber_exceptions_caught_witness:
  "before_subscribers example_env (Obj [(''type'', Str ''go''), (''payload'', Undefined)])
     (example_store\<lparr>actions := [(''go'', 0)], action_arrays := [(0, [(30, root_local)])],
        actionSubscribers := [observer 41, observer 40, observer 42]\<rparr>) =
     (example_store\<lparr>actions := [(''go'', 0)], action_arrays := [(0, [(30, root_local)])],
        actionSubscribers := [observer 41, observer 40, observer 42]\<rparr>,
      [ActionSubscriberCall Before 41 (Obj [(''type'', Str ''go''), (''payload'', Undefined)])
         (Obj [(''count'', Num 0)]) None,
       ActionSubscriberCall Before 40 (Obj [(''type'', Str ''go''), (''payload'', Undefined)])
         (Obj [(''count'', Num 0)]) None,
       ConsoleWarn ''[vuex] error in before action subscribers: '',
       ConsoleErrorValue (Thrown (Str ''observer''))],
      Inr ()) \<and>
   dispatch_onFulfilled example_env (Obj [(''type'', Str ''go''), (''payload'', Undefined)])
     (Single (Num 1))
     (example_store\<lparr>actions := [(''go'', 0)], action_arrays := [(0, [(30, root_local)])],
        actionSubscribers := [observer 41, observer 40, observer 42]\<rparr>) =
     (example_store\<lparr>actions := [(''go'', 0)], action_arrays := [(0, [(30, root_local)])],
        actionSubscribers := [observer 41, observer 40, observer 42]\<rparr>,
      [ActionSubscriberCall After 41 (Obj [(''type'', Str ''go''), (''payload'', Undefined)])
         (Obj [(''count'', Num 0)]) None,
       ActionSubscriberCall After 40 (Obj [(''type'', Str ''go''), (''payload'', Undefined)])
         (Obj [(''count'', Num 0)]) None,
       ConsoleWarn ''[vuex] error in after action subscribers: '',
       ConsoleErrorValue (Thrown (Str ''observer''))],
      Some (Fulfilled (Single (Num 1)))) \<and>
   dispatch_onRejected example_env (Obj [(''type'', Str ''go''), (''payload'', Undefined)])
     (Str ''no'')
     (example_store\<lparr>actions := [(''go'', 0)], action_arrays := [(0, [(30, root_local)])],
        actionSubscribers := [observer 41, observer 40, observer 42]\<rparr>) =
     (example_store\<lparr>actions := [(''go'', 0)], action_arrays := [(0, [(30, root_local)])],
        actionSubscribers := [observer 41, observer 40, observer 42]\<rparr>,
      [ActionSubscriberCall OnError 41 (Obj [(''type'', Str ''go''), (''payload'', Undefined)])
         (Obj [(''count'', Num 0)]) (Some (Str ''no'')),
       ActionSubscriberCall OnError 40 (Obj [(''type'', Str ''go''), (''payload'', Undefined)])
         (Obj [(''count'', Num 0)]) (Some (Str ''no'')),
       ConsoleWarn ''[vuex] error in error action subscribers: '',
       ConsoleErrorValue (Thrown (Str ''observer''))],
      Some (Rejected (Str ''no''))) \<and>
   dispatch_onFulfilled example_env (Obj [(''type'', Str ''go''), (''payload'', Undefined)])
     (Single (Num 1))
     (example_store\<lparr>actionSubscribers := [observer 41, observer 42]\<rparr>) =
     (example_store\<lparr>actionSubscribers := [observer 41, observer 42]\<rparr>,
      [ActionSubscriberCall After 41 (Obj [(''type'', Str ''go''), (''payload'', Undefined)])
         (Obj [(''count'', Num 0)]) None,
       ActionSubscriberCall After 42 (Obj [(''type'', Str ''go''), (''payload'', Undefined)])
         (Obj [(''count'', Num 0)]) None],
      Some (Fulfilled (Single (Num 1)))) \<and>
   snd (snd (dispatch example_env (Str ''go'') Undefined
     (example_store\<lparr>actions := [(''go'', 0)], action_arrays := [(0, [(30, root_local)])],
        actionSubscribers := [observer 41, observer 40, observer 42]\<rparr>))) =
     Inr (Some (NewPromise (Obj [(''type'', Str ''go''), (''payload'', Undefined)])
       (Some (0, Fulfils (Single (Num 1))))))"
proof -
  let ?a = "Obj [(''type'', Str ''go''), (''payload'', Undefined)]"
  let ?s = "example_store\<lparr>actions := [(''go'', 0)], action_arrays := [(0, [(30, root_local)])],
        actionSubscribers := [observer 41, observer 40, observer 42]\<rparr>"
  let ?q = "example_store\<lparr>actionSubscribers := [observer 41, observer 42]\<rparr>"
  let ?e = "Thrown (Str ''observer'')"
  note defs = wrappedActionHandler_def local_getters_def root_local_def makeLocalContext_def
    example_env_def example_store_def example_ctx_def Promise_resolve_def wrap_result_def
    call_action_subscriber_def List.map_filter_def observer_def array_at_def
  note inst = action_subscriber_exceptions_caught [where env = example_env and s = ?s
      and a = ?a and res = "Single (Num 1)" and err = "Str ''no''"]
  note instq = action_subscriber_exceptions_caught [where env = example_env and s = ?q
      and a = ?a and res = "Single (Num 1)" and err = "Str ''no''"]
  have dev: "DEV example_env"
    by (simp add: example_env_def)
  have sb: "List.map_filter sub_before (actionSubscribers ?s) = [41] @ 40 # [42]"
    and sa: "List.map_filter sub_after (actionSubscribers ?s) = [41] @ 40 # [42]"
    and se: "List.map_filter sub_error (actionSubscribers ?s) = [41] @ 40 # [42]"
    by (simp_all add: List.map_filter_def observer_def)
  have pb: "forEach (call_action_subscriber example_env Before ?a None) [41] ?s =
      (?s, [ActionSubscriberCall Before 41 ?a (Obj [(''count'', Num 0)]) None], Inr ())"
    and pa: "forEach (call_action_subscriber example_env After ?a None) [41] ?s =
      (?s, [ActionSubscriberCall After 41 ?a (Obj [(''count'', Num 0)]) None], Inr ())"
    and pe: "forEach (call_action_subscriber example_env OnError ?a (Some (Str ''no''))) [41] ?s =
      (?s, [ActionSubscriberCall OnError 41 ?a (Obj [(''count'', Num 0)]) (Some (Str ''no''))],
       Inr ())"
    by (simp_all add: defs)
  have tb: "action_subscriber_fn example_env 40 ?a (state ?s) None ?s = (?s, Some ?e)"
    and te: "action_subscriber_fn example_env 40 ?a (state ?s) (Some (Str ''no'')) ?s =
      (?s, Some ?e)"
    by (simp_all add: example_env_def)
  from inst [THEN conjunct1, rule_format, OF conjI [OF sb conjI [OF pb tb]], THEN conjunct1] dev
  have 1: "before_subscribers example_env ?a ?s =
     (?s, [ActionSubscriberCall Before 41 ?a (Obj [(''count'', Num 0)]) None,
       ActionSubscriberCall Before 40 ?a (Obj [(''count'', Num 0)]) None,
       ConsoleWarn ''[vuex] error in before action subscribers: '',
       ConsoleErrorValue ?e], Inr ())"
    by (simp add: example_store_def)
  from inst [THEN conjunct2, THEN conjunct1, rule_format, OF conjI [OF sa conjI [OF pa tb]],
      THEN conjunct1] dev
  have 2: "dispatch_onFulfilled example_env ?a (Single (Num 1)) ?s =
     (?s, [ActionSubscriberCall After 41 ?a (Obj [(''count'', Num 0)]) None,
       ActionSubscriberCall After 40 ?a (Obj [(''count'', Num 0)]) None,
       ConsoleWarn ''[vuex] error in after action subscribers: '',
       ConsoleErrorValue ?e], Some (Fulfilled (Single (Num 1))))"
    by (simp add: example_store_def)
  from inst [THEN conjunct2, THEN conjunct2, THEN conjunct1, rule_format,
      OF conjI [OF se conjI [OF pe te]], THEN conjunct1] dev
  have 3: "dispatch_onRejected example_env ?a (Str ''no'') ?s =
     (?s, [ActionSubscriberCall OnError 41 ?a (Obj [(''count'', Num 0)]) (Some (Str ''no'')),
       ActionSubscriberCall OnError 40 ?a (Obj [(''count'', Num 0)]) (Some (Str ''no'')),
       ConsoleWarn ''[vuex] error in error action subscribers: '',
       ConsoleErrorValue ?e], Some (Rejected (Str ''no'')))"
    by (simp add: example_store_def)
  have fq: "forEach (call_action_subscriber example_env After ?a None)
      (List.map_filter sub_after (actionSubscribers ?q)) ?q =
      (?q, [ActionSubscriberCall After 41 ?a (Obj [(''count'', Num 0)]) None,
            ActionSubscriberCall After 42 ?a (Obj [(''count'', Num 0)]) None], Inr ())"
    by (simp add: defs)
  from instq [THEN conjunct2, THEN conjunct2, THEN conjunct2, THEN conjunct2, THEN conjunct1,
      rule_format, OF fq, THEN conjunct1]
  have 4: "dispatch_onFulfilled example_env ?a (Single (Num 1)) ?q =
     (?q, [ActionSubscriberCall After 41 ?a (Obj [(''count'', Num 0)]) None,
           ActionSubscriberCall After 42 ?a (Obj [(''count'', Num 0)]) None],
      Some (Fulfilled (Single (Num 1))))" .
  have u: "unifyObjectStyle example_env (Str ''go'') Undefined Undefined =
      Inr (Str ''go'', Undefined, Undefined)"
    by (simp add: unifyObjectStyle_def example_env_def)
  have m: "map_of (actions ?s) (property_key example_env (Str ''go'')) = Some 0"
    by (simp add: property_key_def)
  from inst [THEN conjunct2, THEN conjunct2, THEN conjunct2, THEN conjunct2, THEN conjunct2,
      THEN conjunct2, THEN conjunct2, rule_format, OF conjI [OF u m]]
  obtain s1 tr1 s2 tr2 r where
    b: "before_subscribers example_env ?a ?s = (s1, tr1, Inr ())"
    and run: "run_action_handlers example_env Undefined (array_at s1 0) s1 = (s2, tr2, r)"
    and d: "dispatch example_env (Str ''go'') Undefined ?s =
           (s2, tr1 @ tr2,
            case r of Inl e \<Rightarrow> Inl e | Inr result \<Rightarrow> Inr (Some (NewPromise ?a result)))"
    by blast
  from b 1 have "s1 = ?s"
    by simp
  with run have "r = Inr (Some (0, Fulfils (Single (Num 1))))"
    by (simp add: run_action_handlers_def single_result_def defs)
  with d have 5: "snd (snd (dispatch example_env (Str ''go'') Undefined ?s)) =
     Inr (Some (NewPromise ?a (Some (0, Fulfils (Single (Num 1))))))"
    by simp
  from 1 2 3 4 5 show ?thesis
    by (intro conjI) assumption+
qed

section \<open>The install walk: grafting the state of a module\<close>

text \<open>Property lists, the state tree, and the fields that the registrations leave alone.\<close>

lemma getNestedState_not_object:
  "getNestedState Undefined p \<noteq> Inr (Obj kvs)"
  by (cases p) auto

lemma assign_assign: "assign k v (assign k w kvs) = assign k v kvs"
  by (induction kvs) auto

lemma set_nested_get:
  "getNestedState st p = Inr (Obj kvs) \<Longrightarrow>
   getNestedState (set_nested st p k v) (p @ [k]) = Inr v"
proof (induction p arbitrary: st)
  case Nil
  then show ?case by (simp add: map_of_assign_same)
next
  case (Cons a p)
  show ?case
  proof (cases st)
    case (Obj kvs0)
    show ?thesis
    proof (cases "map_of kvs0 a")
      case None
      with Cons.prems Obj show ?thesis
        by (simp add: getNestedState_not_object)
    next
      case (Some inner)
      with Cons.prems Obj have "getNestedState inner p = Inr (Obj kvs)"
        by simp
      from Cons.IH [OF this] Obj Some show ?thesis
        by (simp add: map_of_assign_same)
    qed
  qed (use Cons.prems in \<open>simp_all add: getNestedState_not_object\<close>)
qed

lemma set_nested_parent:
  "getNestedState st p = Inr (Obj kvs) \<Longrightarrow>
   getNestedState (set_nested st p k v) p = Inr (Obj (assign k v kvs))"
proof (induction p arbitrary: st)
  case Nil
  then show ?case by simp
next
  case (Cons a p)
  show ?case
  proof (cases st)
    case (Obj kvs0)
    show ?thesis
    proof (cases "map_of kvs0 a")
      case None
      with Cons.prems Obj show ?thesis
        by (simp add: getNestedState_not_object)
    next
      case (Some inner)
      with Cons.prems Obj have "getNestedState inner p = Inr (Obj kvs)"
        by simp
      from Cons.IH [OF this] Obj Some show ?thesis
        by (simp add: map_of_assign_same)
    qed
  qed (use Cons.prems in \<open>simp_all add: getNestedState_not_object\<close>)
qed

text \<open>
  A property set on the value that has just been put under a key is a property of the
  value put there.
\<close>

lemma set_nested_nested:
  "getNestedState st p = Inr (Obj kvs) \<Longrightarrow>
   set_nested (set_nested st p k v) (p @ [k]) k' w = set_nested st p k (set_nested v [] k' w)"
proof (induction p arbitrary: st)
  case Nil
  then show ?case by (simp add: map_of_assign_same assign_assign)
next
  case (Cons a p)
  show ?case
  proof (cases st)
    case (Obj kvs0)
    show ?thesis
    proof (cases "map_of kvs0 a")
      case None
      with Cons.prems Obj show ?thesis
        by (simp add: getNestedState_not_object)
    next
      case (Some inner)
      with Cons.prems Obj have "getNestedState inner p = Inr (Obj kvs)"
        by simp
      from Cons.IH [OF this] Obj Some show ?thesis
        by (simp add: map_of_assign_same assign_assign)
    qed
  qed (use Cons.prems in \<open>simp_all add: getNestedState_not_object\<close>)
qed

text \<open>The states of the children, grafted one after the other at the path of their parent.\<close>

lemma fold_graft_children:
  "getNestedState st p = Inr (Obj kvs) \<Longrightarrow>
   fold (\<lambda>(key, child) x. set_nested x (p @ [k]) key (grafted child)) ch (set_nested st p k v) =
     set_nested st p k (graft_children v ch)"
proof (induction ch arbitrary: v)
  case Nil
  then show ?case by simp
next
  case (Cons kc ch)
  obtain key child where kc: "kc = (key, child)" by (cases kc) auto
  from Cons.IH [OF Cons.prems, of "set_nested v [] key (grafted child)"]
    set_nested_nested [OF Cons.prems, of k v key "grafted child"] kc
  show ?case by simp
qed

lemma graft_state_eq:
  assumes "getNestedState (state s) (butlast path) = Inr (Obj kvs)"
  shows "graft_state env path m s =
     (s\<lparr>state := set_nested (state s) (butlast path) (last path) (mstate m)\<rparr>,
      (if DEV env \<and> (map_of kvs (last path) \<noteq> None \<or> last path \<in> set (prototype_keys env))
       then [ConsoleWarn (''[vuex] state field \"'' @ last path @
               ''\" was overridden by a module with the same name at \"'' @
               join path ''.'' @ ''\"'')]
       else []),
      Inr ())"
  using assms
  by (simp add: graft_state_def graft_body_def withCommit_def set_state_def)

lemma fold_preserves:
  assumes "\<And>x s. P (f x s) = P s"
  shows "P (fold f xs s) = P s"
  by (induction xs arbitrary: s) (simp_all add: assms)

lemma registerMutation_frame:
  "state (registerMutation t h l s) = state s"
  "committing (registerMutation t h l s) = committing s"
  "modules (registerMutation t h l s) = modules s"
  by (simp_all add: registerMutation_def Let_def)

lemma registerAction_frame:
  "state (registerAction t h l s) = state s"
  "committing (registerAction t h l s) = committing s"
  "modules (registerAction t h l s) = modules s"
  "wrappedGetters (registerAction t h l s) = wrappedGetters s"
  "modulesNamespaceMap (registerAction t h l s) = modulesNamespaceMap s"
  by (simp_all add: registerAction_def Let_def split: option.splits)

lemma register_mutations_state:
  "state (register_mutations ns local m s) = state s"
  "committing (register_mutations ns local m s) = committing s"
  "modules (register_mutations ns local m s) = modules s"
  unfolding register_mutations_def
  by (rule fold_preserves, simp add: registerMutation_frame split: prod.splits)+

lemma register_actions_state:
  "state (register_actions ns local m s) = state s"
  "committing (register_actions ns local m s) = committing s"
  "modules (register_actions ns local m s) = modules s"
  unfolding register_actions_def
  by (rule fold_preserves, simp add: registerAction_frame split: prod.splits)+

lemma register_getters_state:
  "\<exists>s' tr. register_getters env ns local m s = (s', tr, Inr ()) \<and> state s' = state s \<and>
     committing s' = committing s \<and> modules s' = modules s"
proof -
  have "\<exists>s' tr. forEach (\<lambda>(key, getter). registerGetter env (ns @ key) getter local) xs s =
      (s', tr, Inr ()) \<and> state s' = state s \<and> committing s' = committing s \<and>
      modules s' = modules s" for xs
  proof (induction xs arbitrary: s)
    case Nil
    then show ?case by simp
  next
    case (Cons x xs)
    obtain key getter where x: "x = (key, getter)" by (cases x) auto
    have "\<exists>s1 tr1. registerGetter env (ns @ key) getter local s = (s1, tr1, Inr ()) \<and>
        state s1 = state s \<and> committing s1 = committing s \<and> modules s1 = modules s"
      by (cases "map_of (wrappedGetters s) (ns @ key)") (simp_all add: registerGetter_def)
    then obtain s1 tr1 where g: "registerGetter env (ns @ key) getter local s = (s1, tr1, Inr ())"
      "state s1 = state s" "committing s1 = committing s" "modules s1 = modules s"
      by blast
    from Cons.IH [of s1] obtain s2 tr2 where
      "forEach (\<lambda>(key, getter). registerGetter env (ns @ key) getter local) xs s1 = (s2, tr2, Inr ())"
      "state s2 = state s1" "committing s2 = committing s1" "modules s2 = modules s1"
      by blast
    with x g show ?case by simp
  qed
  then show ?thesis
    by (simp add: register_getters_def)
qed

lemma register_namespace_frame:
  "\<exists>s1 tr1. register_namespace env ns path m s = (s1, tr1, Inr ()) \<and> state s1 = state s \<and>
     committing s1 = committing s \<and> modules s1 = modules s"
  by (simp add: register_namespace_def)

text \<open>The definitions that an evaluation of the walk unfolds.\<close>

lemmas install_defs = register_namespace_def graft_state_def graft_body_def withCommit_def
  set_state_def makeLocalContext_def register_mutations_def register_actions_def
  register_getters_def registerMutation_def registerAction_def registerGetter_def
  mutation_entries_def action_entries_def getter_entries_def namespaced_def
  example_env_def example_store_def example_raw_def Let_def

text \<open>
  The walk over a module that can be installed returns. Without the hot flag it leaves the
  state of the module, with the states of its descendants grafted into it, under the key of
  the module; with the hot flag it leaves the state tree as it was.
\<close>

lemma installModule_grafts:
  "path \<noteq> [] \<Longrightarrow> installable (modules s) path m \<Longrightarrow>
   hot \<or> (\<exists>kvs. getNestedState (state s) (butlast path) = Inr (Obj kvs)) \<Longrightarrow>
   \<exists>ns s' tr'. getNamespace (modules s) path = Inr ns \<and>
     installModule env path m hot s =
       (s', fst (snd (register_namespace env ns path m s)) @
            (if hot then [] else fst (snd (graft_state env path m s))) @ tr', Inr ()) \<and>
     state s' = (if hot then state s
                 else set_nested (state s) (butlast path) (last path) (grafted m)) \<and>
     committing s' = committing s \<and> modules s' = modules s"
  and installChildren_grafts:
  "children_installable (modules s) path ch \<Longrightarrow>
   hot \<or> ch = [] \<or> (\<exists>kvs. getNestedState (state s) path = Inr (Obj kvs)) \<Longrightarrow>
   \<exists>s' tr. installChildren env path ch hot s = (s', tr, Inr ()) \<and>
     state s' = (if hot then state s
                 else fold (\<lambda>(key, child) x. set_nested x path key (grafted child)) ch (state s)) \<and>
     committing s' = committing s \<and> modules s' = modules s"
proof (induction env path m hot s and env path ch hot s
    rule: installModule_installChildren.induct)
  case (1 env path rt ch raw st hot s)
  let ?m = "Module rt ch raw st"
  from "1.prems"(2) obtain ns where ns: "getNamespace (modules s) path = Inr ns"
    by (cases "getNamespace (modules s) path") auto
  from "1.prems"(2) have obj: "ch = [] \<or> isObject st"
    and inst: "children_installable (modules s) path ch"
    by simp_all
  from "1.prems"(1) have split: "butlast path @ [last path] = path"
    by simp
  obtain s1 tr1 where a: "register_namespace env ns path ?m s = (s1, tr1, Inr ())"
    and f1: "state s1 = state s" "committing s1 = committing s" "modules s1 = modules s"
    using register_namespace_frame by blast
  let ?v = "set_nested (state s) (butlast path) (last path) st"
  have "\<exists>s2 tr2. (if path \<noteq> [] \<and> \<not> hot then graft_state env path ?m s1
        else (s1, [], Inr ())) = (s2, tr2, Inr ()) \<and>
      tr2 = (if hot then [] else fst (snd (graft_state env path ?m s))) \<and>
      state s2 = (if hot then state s else ?v) \<and>
      committing s2 = committing s \<and> modules s2 = modules s"
  proof (cases hot)
    case True
    with f1 show ?thesis by simp
  next
    case False
    with "1.prems"(3) obtain kvs where
      p: "getNestedState (state s) (butlast path) = Inr (Obj kvs)"
      by blast
    then have p1: "getNestedState (state s1) (butlast path) = Inr (Obj kvs)"
      by (simp add: f1)
    from False "1.prems"(1) f1 show ?thesis
      by (simp add: graft_state_eq [OF p] graft_state_eq [OF p1])
  qed
  then obtain s2 tr2 where b: "(if path \<noteq> [] \<and> \<not> hot then graft_state env path ?m s1
        else (s1, [], Inr ())) = (s2, tr2, Inr ())"
    and tr2: "tr2 = (if hot then [] else fst (snd (graft_state env path ?m s)))"
    and f2: "state s2 = (if hot then state s else ?v)" "committing s2 = committing s"
      "modules s2 = modules s"
    by blast
  let ?local = "makeLocalContext ns path"
  let ?s5 = "register_actions ns ?local ?m
      (register_mutations ns ?local ?m (s2\<lparr>contexts := assign path ?local (contexts s2)\<rparr>))"
  have f5: "state ?s5 = state s2" "committing ?s5 = committing s2" "modules ?s5 = modules s2"
    by (simp_all add: register_actions_state register_mutations_state)
  obtain s6 tr3 where c: "register_getters env ns ?local ?m ?s5 = (s6, tr3, Inr ())"
    and f6: "state s6 = state ?s5" "committing s6 = committing ?s5" "modules s6 = modules ?s5"
    using register_getters_state by blast
  have i6: "children_installable (modules s6) path ch"
    using inst f6 f5 f2 by simp
  have o6: "hot \<or> ch = [] \<or> (\<exists>kvs. getNestedState (state s6) path = Inr (Obj kvs))"
  proof (cases "hot \<or> ch = []")
    case True
    then show ?thesis by blast
  next
    case False
    with "1.prems"(3) obtain kvs where
      p: "getNestedState (state s) (butlast path) = Inr (Obj kvs)"
      by blast
    from False obj obtain kvs' where st: "st = Obj kvs'"
      by (cases st) auto
    from set_nested_get [OF p, of "last path" st] split
    have "getNestedState ?v path = Inr st"
      by simp
    with False st f6 f5 f2 show ?thesis
      by simp
  qed
  have "\<exists>s' tr. installChildren env path ch hot s6 = (s', tr, Inr ()) \<and>
     state s' = (if hot then state s6
                 else fold (\<lambda>(key, child) x. set_nested x path key (grafted child)) ch (state s6)) \<and>
     committing s' = committing s6 \<and> modules s' = modules s6"
    by (rule "1.IH" [OF ns a [symmetric] refl b [symmetric] refl refl refl refl refl refl
          c [symmetric] refl i6 o6])
  then obtain s7 tr4 where d: "installChildren env path ch hot s6 = (s7, tr4, Inr ())"
    and f7: "state s7 = (if hot then state s6
                 else fold (\<lambda>(key, child) x. set_nested x path key (grafted child)) ch (state s6))"
      "committing s7 = committing s6" "modules s7 = modules s6"
    by blast
  have eq: "installModule env path ?m hot s = (s7, tr1 @ tr2 @ tr3 @ tr4, Inr ())"
    using ns a b c d by (simp add: Let_def)
  have st7: "state s7 = (if hot then state s
                 else set_nested (state s) (butlast path) (last path) (grafted ?m))"
  proof (cases hot)
    case True
    with f7 f6 f5 f2 show ?thesis by simp
  next
    case False
    with "1.prems"(3) obtain kvs where
      p: "getNestedState (state s) (butlast path) = Inr (Obj kvs)"
      by blast
    from fold_graft_children [OF p, of "last path" ch st] split
    have "fold (\<lambda>(key, child) x. set_nested x path key (grafted child)) ch ?v =
        set_nested (state s) (butlast path) (last path) (graft_children st ch)"
      by simp
    with False f7 f6 f5 f2 show ?thesis by simp
  qed
  from a have tr1: "tr1 = fst (snd (register_namespace env ns path ?m s))"
    by simp
  from ns eq st7 f7 f6 f5 f2 tr1 tr2 show ?case
    by (intro exI [of _ ns] exI [of _ s7] exI [of _ "tr3 @ tr4"]) simp
next
  case (2 env path hot s)
  then show ?case by simp
next
  case (3 env path key child rest hot s)
  from "3.prems"(1) have i1: "installable (modules s) (path @ [key]) child"
    and i2: "children_installable (modules s) path rest"
    by simp_all
  from "3.prems"(2) have o1:
    "hot \<or> (\<exists>kvs. getNestedState (state s) (butlast (path @ [key])) = Inr (Obj kvs))"
    by simp
  have ne: "path @ [key] \<noteq> []"
    by simp
  from "3.IH"(1) [OF ne i1 o1] obtain s1 tr1 where
    a: "installModule env (path @ [key]) child hot s = (s1, tr1, Inr ())"
    and f1: "state s1 = (if hot then state s else set_nested (state s) path key (grafted child))"
      "committing s1 = committing s" "modules s1 = modules s"
    by auto
  have i2': "children_installable (modules s1) path rest"
    using i2 f1 by simp
  have o2: "hot \<or> rest = [] \<or> (\<exists>kvs. getNestedState (state s1) path = Inr (Obj kvs))"
  proof (cases hot)
    case True
    then show ?thesis by simp
  next
    case False
    with "3.prems"(2) obtain kvs where p: "getNestedState (state s) path = Inr (Obj kvs)"
      by auto
    from set_nested_parent [OF p, of key "grafted child"] False f1 show ?thesis
      by simp
  qed
  from "3.IH"(2) [OF a [symmetric] refl refl i2' o2] obtain s2 tr2 where
    b: "installChildren env path rest hot s1 = (s2, tr2, Inr ())"
    and f2: "state s2 = (if hot then state s1
        else fold (\<lambda>(key, child) x. set_nested x path key (grafted child)) rest (state s1))"
      "committing s2 = committing s1" "modules s2 = modules s1"
    by blast
  from a b f1 f2 show ?case
    by simp
qed

text \<open>
  C6, as stated, fails: the graft is not held back when the key is present already. On a
  store whose root state has the field \<^verbatim>\<open>a\<close> with the value 7, installing the module at
  the path \<^verbatim>\<open>a\<close> replaces the field by the state of the module, and warns.
\<close>

theorem graft_overwrites_counterexample:
  "getNestedState (state example_parent) [''a''] = Inr (Num 7) \<and>
   installModule example_env [''a''] example_child False example_parent =
     (example_parent
        \<lparr>mutations := [(''a/inc'', [(1, \<lparr>lc_namespace = ''a/'', lc_path = [''a'']\<rparr>)])],
         modulesNamespaceMap := [(''a/'', example_child)],
         state := Obj [(''a'', Obj [(''v'', Num 1)])],
         contexts := [([''a''], \<lparr>lc_namespace = ''a/'', lc_path = [''a'']\<rparr>)]\<rparr>,
      [ConsoleWarn
         ''[vuex] state field \"a\" was overridden by a module with the same name at \"a\"''],
      Inr ())"
  by (simp add: example_parent_def example_child_def install_defs)

text \<open>
  C6, amended. Take a module that is not the root, installed without the hot flag, whose
  parent's state is an object. The walk sets the property of the parent's state under the
  module's local key to the state of the module, whether or not the key is present, so
  that the state of the module is found at its path afterwards. The write is made inside
  \<^verbatim>\<open>_withCommit\<close>: the flag is restored, and the watcher of strict mode reports nothing.
  When the key is a property of the parent's state already, a field of its own or a name
  that every object has, the walk warns, in a development build, and goes on.

  This is so for every module that can be installed, with or without children:
  \<^verbatim>\<open>installModule\<close> returns; its trace starts with the report of the namespace and the
  warning of the graft; it leaves the flag as it was; and it leaves, under the key of the
  module, the state of the module with the states of its descendants grafted into it,
  which for a module without children is the state of the module as it is. With the hot
  flag the walk leaves the state tree as it was.
\<close>

theorem graft_module_state:
  assumes path: "path \<noteq> []"
    and parent: "getNestedState (state s) (butlast path) = Inr (Obj kvs)"
  shows "graft_state env path m s =
           (s\<lparr>state := set_nested (state s) (butlast path) (last path) (mstate m)\<rparr>,
            (if DEV env \<and>
                (map_of kvs (last path) \<noteq> None \<or> last path \<in> set (prototype_keys env))
             then [ConsoleWarn (''[vuex] state field \"'' @ last path @
                     ''\" was overridden by a module with the same name at \"'' @
                     join path ''.'' @ ''\"'')]
             else []),
            Inr ()) \<and>
         getNestedState (state (fst (graft_state env path m s))) path = Inr (mstate m) \<and>
         (installable (modules s) path m \<longrightarrow>
            (\<exists>ns s' tr'. getNamespace (modules s) path = Inr ns \<and>
               installModule env path m False s =
                 (s',
                  fst (snd (register_namespace env ns path m s)) @
                  (if DEV env \<and>
                      (map_of kvs (last path) \<noteq> None \<or> last path \<in> set (prototype_keys env))
                   then [ConsoleWarn (''[vuex] state field \"'' @ last path @
                           ''\" was overridden by a module with the same name at \"'' @
                           join path ''.'' @ ''\"'')]
                   else []) @ tr',
                  Inr ()) \<and>
               state s' = set_nested (state s) (butlast path) (last path) (grafted m) \<and>
               getNestedState (state s') path = Inr (grafted m) \<and>
               committing s' = committing s) \<and>
            (\<exists>s' tr. installModule env path m True s = (s', tr, Inr ()) \<and> state s' = state s)) \<and>
         (children m = [] \<longrightarrow> grafted m = mstate m)"
proof -
  let ?v = "set_nested (state s) (butlast path) (last path) (mstate m)"
  let ?w = "if DEV env \<and>
                (map_of kvs (last path) \<noteq> None \<or> last path \<in> set (prototype_keys env))
             then [ConsoleWarn (''[vuex] state field \"'' @ last path @
                     ''\" was overridden by a module with the same name at \"'' @
                     join path ''.'' @ ''\"'')]
             else []"
  note g = graft_state_eq [OF parent, where env = env and m = m]
  from path have split: "butlast path @ [last path] = path"
    by simp
  from set_nested_get [OF parent, of "last path" "mstate m"]
  have get: "getNestedState ?v path = Inr (mstate m)"
    by (simp add: split)
  from set_nested_get [OF parent, of "last path" "grafted m"]
  have get': "getNestedState (set_nested (state s) (butlast path) (last path) (grafted m)) path =
      Inr (grafted m)"
    by (simp add: split)
  have walk: "(\<exists>ns s' tr'. getNamespace (modules s) path = Inr ns \<and>
               installModule env path m False s =
                 (s', fst (snd (register_namespace env ns path m s)) @ ?w @ tr', Inr ()) \<and>
               state s' = set_nested (state s) (butlast path) (last path) (grafted m) \<and>
               getNestedState (state s') path = Inr (grafted m) \<and>
               committing s' = committing s) \<and>
            (\<exists>s' tr. installModule env path m True s = (s', tr, Inr ()) \<and> state s' = state s)"
    if inst: "installable (modules s) path m"
  proof -
    from parent have p: "False \<or> (\<exists>kvs. getNestedState (state s) (butlast path) = Inr (Obj kvs))"
      by blast
    from installModule_grafts [OF path inst p, of env] obtain ns s' tr' where
      c: "getNamespace (modules s) path = Inr ns"
      "installModule env path m False s =
         (s', fst (snd (register_namespace env ns path m s)) @
              fst (snd (graft_state env path m s)) @ tr', Inr ())"
      "state s' = set_nested (state s) (butlast path) (last path) (grafted m)"
      "committing s' = committing s"
      by auto
    from c(2) g have c2: "installModule env path m False s =
         (s', fst (snd (register_namespace env ns path m s)) @ ?w @ tr', Inr ())"
      by simp
    have cold: "\<exists>ns s' tr'. getNamespace (modules s) path = Inr ns \<and>
               installModule env path m False s =
                 (s', fst (snd (register_namespace env ns path m s)) @ ?w @ tr', Inr ()) \<and>
               state s' = set_nested (state s) (butlast path) (last path) (grafted m) \<and>
               getNestedState (state s') path = Inr (grafted m) \<and>
               committing s' = committing s"
      using c(1) c2 c(3) c(4) get'
      by (intro exI [of _ ns] exI [of _ s'] exI [of _ tr']) simp
    have h: "True \<or> (\<exists>kvs. getNestedState (state s) (butlast path) = Inr (Obj kvs))"
      by simp
    from installModule_grafts [OF path inst h, of env]
    have hot: "\<exists>s' tr. installModule env path m True s = (s', tr, Inr ()) \<and> state s' = state s"
      by auto
    from cold hot show ?thesis
      by (rule conjI)
  qed
  have leaf: "grafted m = mstate m" if "children m = []"
    using that by (cases m) simp
  from g get walk leaf show ?thesis
    by simp
qed

text \<open>
  On the example store whose root state has the field \<^verbatim>\<open>a\<close> already; on the example
  store, for a module at the key \<^verbatim>\<open>toString\<close>, which its root state inherits; and for
  the module at \<^verbatim>\<open>a\<close> of the example tree, which has the children \<^verbatim>\<open>b\<close> and \<^verbatim>\<open>c\<close>.
\<close>

theorem graft_module_state_witness:
  "graft_state example_env [''a''] example_child example_parent =
     (example_parent\<lparr>state := Obj [(''a'', Obj [(''v'', Num 1)])]\<rparr>,
      [ConsoleWarn
         ''[vuex] state field \"a\" was overridden by a module with the same name at \"a\"''],
      Inr ()) \<and>
   graft_state example_env [''toString''] example_child example_store =
     (example_store\<lparr>state := Obj [(''count'', Num 0), (''toString'', Obj [(''v'', Num 1)])]\<rparr>,
      [ConsoleWarn
         ''[vuex] state field \"toString\" was overridden by a module with the same name at \"toString\"''],
      Inr ()) \<and>
   (\<exists>s' tr. installModule example_env [''a''] example_branch False
        (example_store\<lparr>modules := example_tree, state := Obj []\<rparr>) = (s', tr, Inr ()) \<and>
      state s' =
        Obj [(''a'', Obj [(''b'', Obj [(''c'', Obj [(''v'', Num 1)])]),
                          (''c'', Obj [(''v'', Num 2)])])] \<and>
      \<not> committing s') \<and>
   (\<exists>s' tr. installModule example_env [''a''] example_branch True
        (example_store\<lparr>modules := example_tree, state := Obj []\<rparr>) = (s', tr, Inr ()) \<and>
      state s' = Obj [])"
proof -
  let ?s = "example_store\<lparr>modules := example_tree, state := Obj []\<rparr>"
  have p: "[''a''] \<noteq> ([] :: string list)" "[''toString''] \<noteq> ([] :: string list)"
    by simp_all
  have parent: "getNestedState (state example_parent) (butlast [''a'']) =
      Inr (Obj [(''a'', Num 7)])"
    by (simp add: example_parent_def)
  have root: "getNestedState (state example_store) (butlast [''toString'']) =
      Inr (Obj [(''count'', Num 0)])"
    by (simp add: example_store_def)
  have empty: "getNestedState (state ?s) (butlast [''a'']) = Inr (Obj [])"
    by simp
  have inst: "installable (modules ?s) [''a''] example_branch"
    by (simp add: example_branch_def example_tree_def example_deep_def example_late_def
        example_raw_def namespaced_def)
  have dev: "DEV example_env"
    by (simp add: example_env_def)
  from graft_module_state [OF p(1) parent, where env = example_env and m = example_child,
      THEN conjunct1] dev
  have 1: "graft_state example_env [''a''] example_child example_parent =
     (example_parent\<lparr>state := Obj [(''a'', Obj [(''v'', Num 1)])]\<rparr>,
      [ConsoleWarn
         ''[vuex] state field \"a\" was overridden by a module with the same name at \"a\"''],
      Inr ())"
    by (simp add: example_parent_def example_child_def)
  from graft_module_state [OF p(2) root, where env = example_env and m = example_child,
      THEN conjunct1] dev
  have 2: "graft_state example_env [''toString''] example_child example_store =
     (example_store\<lparr>state := Obj [(''count'', Num 0), (''toString'', Obj [(''v'', Num 1)])]\<rparr>,
      [ConsoleWarn
         ''[vuex] state field \"toString\" was overridden by a module with the same name at \"toString\"''],
      Inr ())"
    by (simp add: example_store_def example_child_def example_env_def)
  from graft_module_state [OF p(1) empty, where env = example_env and m = example_branch,
      THEN conjunct2, THEN conjunct2, THEN conjunct1] inst
  have 3: "(\<exists>s' tr. installModule example_env [''a''] example_branch False ?s = (s', tr, Inr ()) \<and>
      state s' = set_nested (state ?s) (butlast [''a'']) (last [''a'']) (grafted example_branch) \<and>
      committing s' = committing ?s) \<and>
   (\<exists>s' tr. installModule example_env [''a''] example_branch True ?s = (s', tr, Inr ()) \<and>
      state s' = state ?s)"
    by blast
  have gr: "grafted example_branch =
      Obj [(''b'', Obj [(''c'', Obj [(''v'', Num 1)])]), (''c'', Obj [(''v'', Num 2)])]"
    by (simp add: example_branch_def example_deep_def example_late_def)
  have st: "committing ?s = False"
    by (simp add: example_store_def)
  from 3 have 4: "(\<exists>s' tr. installModule example_env [''a''] example_branch False ?s = (s', tr, Inr ()) \<and>
      state s' =
        Obj [(''a'', Obj [(''b'', Obj [(''c'', Obj [(''v'', Num 1)])]),
                          (''c'', Obj [(''v'', Num 2)])])] \<and>
      \<not> committing s') \<and>
   (\<exists>s' tr. installModule example_env [''a''] example_branch True ?s = (s', tr, Inr ()) \<and>
      state s' = Obj [])"
    unfolding gr st by simp
  from 1 2 4 show ?thesis
    by (intro conjI) blast+
qed

section \<open>The install walk: duplicate namespaces and getter keys\<close>

text \<open>
  C5, as stated, fails for namespaces: the entry of the namespace map is overwritten. In
  the example tree the modules at \<^verbatim>\<open>a/b/c\<close> and at \<^verbatim>\<open>a/c\<close> both get the namespace
  \<^verbatim>\<open>a/c/\<close>; the walk visits \<^verbatim>\<open>a/b/c\<close> first, reports the duplicate at \<^verbatim>\<open>a/c\<close>, and
  ends with the module of \<^verbatim>\<open>a/c\<close>, the later one, in the map.
\<close>

theorem duplicate_namespace_counterexample:
  "getNamespace example_tree [''a'', ''b'', ''c''] = Inr ''a/c/'' \<and>
   getNamespace example_tree [''a'', ''c''] = Inr ''a/c/'' \<and>
   example_late \<noteq> example_deep \<and>
   modulesNamespaceMap (fst (installModule example_env [] example_tree False
     (example_store\<lparr>modules := example_tree, state := Obj []\<rparr>))) =
     [(''a/'', Module False
                  [(''b'', Module False [(''c'', example_deep)] example_raw (Obj [])),
                   (''c'', example_late)]
                  \<lparr>raw_namespaced = Bool True, raw_mutations = None, raw_actions = None,
                   raw_getters = None\<rparr>
                  (Obj [])),
      (''a/c/'', example_late)] \<and>
   snd (installModule example_env [] example_tree False
     (example_store\<lparr>modules := example_tree, state := Obj []\<rparr>)) =
     ([ConsoleError ''[vuex] duplicate namespace a/c/ for the namespaced module a/c'',
       ConsoleError ''[vuex] duplicate getter key: a/c/total''], Inr ())"
  by (simp add: example_tree_def example_deep_def example_late_def install_defs)

text \<open>The walk changes no entry of the registry of getters that is there already.\<close>

lemma register_namespace_getters:
  "wrappedGetters (fst (register_namespace env ns path m s)) = wrappedGetters s"
  by (simp add: register_namespace_def)

lemma graft_state_getters:
  "wrappedGetters (fst (graft_state env path m s)) = wrappedGetters s"
  by (simp add: graft_state_def graft_body_def withCommit_def set_state_def
      split: sum.splits)

lemma register_mutations_getters:
  "wrappedGetters (register_mutations ns local m s) = wrappedGetters s"
  unfolding register_mutations_def
  by (rule fold_preserves) (simp add: registerMutation_def Let_def split: prod.splits)

lemma register_actions_getters:
  "wrappedGetters (register_actions ns local m s) = wrappedGetters s"
  unfolding register_actions_def
  by (rule fold_preserves) (simp add: registerAction_frame split: prod.splits)

lemma registerGetter_kept:
  "map_of (wrappedGetters s) t = Some g \<Longrightarrow>
   map_of (wrappedGetters (fst (registerGetter env type rawGetter local s))) t = Some g"
  by (cases "map_of (wrappedGetters s) type"; cases "t = type")
    (simp_all add: registerGetter_def map_of_assign_other)

lemma register_getters_kept:
  "map_of (wrappedGetters s) t = Some g \<Longrightarrow>
   map_of (wrappedGetters (fst (register_getters env ns local m s))) t = Some g"
proof -
  have "map_of (wrappedGetters s) t = Some g \<Longrightarrow>
    map_of (wrappedGetters (fst (forEach
      (\<lambda>(key, getter). registerGetter env (ns @ key) getter local) xs s))) t = Some g" for xs
  proof (induction xs arbitrary: s)
    case Nil
    then show ?case by simp
  next
    case (Cons x xs)
    obtain key getter where x: "x = (key, getter)" by (cases x) auto
    obtain s1 tr1 r1 where g: "registerGetter env (ns @ key) getter local s = (s1, tr1, r1)"
      by (cases "registerGetter env (ns @ key) getter local s") auto
    from registerGetter_kept [OF Cons.prems, of env "ns @ key" getter local] g
    have k: "map_of (wrappedGetters s1) t = Some g" by simp
    show ?case
    proof (cases r1)
      case (Inl e)
      with x g k show ?thesis by simp
    next
      case (Inr u)
      obtain s2 tr2 r2 where rest:
        "forEach (\<lambda>(key, getter). registerGetter env (ns @ key) getter local) xs s1 = (s2, tr2, r2)"
        by (cases "forEach (\<lambda>(key, getter). registerGetter env (ns @ key) getter local) xs s1") auto
      from Cons.IH [OF k] rest have "map_of (wrappedGetters s2) t = Some g" by simp
      with x g Inr rest show ?thesis by simp
    qed
  qed
  then show "map_of (wrappedGetters s) t = Some g \<Longrightarrow>
   map_of (wrappedGetters (fst (register_getters env ns local m s))) t = Some g"
    by (simp add: register_getters_def)
qed

lemma installModule_keeps_getter:
  "map_of (wrappedGetters s) t = Some g \<Longrightarrow>
   map_of (wrappedGetters (fst (installModule env path m hot s))) t = Some g"
  and installChildren_keeps_getter:
  "map_of (wrappedGetters s) t = Some g \<Longrightarrow>
   map_of (wrappedGetters (fst (installChildren env path ch hot s))) t = Some g"
proof (induction env path m hot s and env path ch hot s
    rule: installModule_installChildren.induct)
  case (1 env path rt ch raw st hot s)
  let ?m = "Module rt ch raw st"
  show ?case
  proof (cases "getNamespace (modules s) path")
    case (Inl e)
    with "1.prems" show ?thesis by simp
  next
    case (Inr ns)
    obtain s1 tr1 r1 where a: "register_namespace env ns path ?m s = (s1, tr1, r1)"
      by (cases "register_namespace env ns path ?m s") auto
    with register_namespace_getters [of env ns path ?m s] "1.prems"
    have k1: "map_of (wrappedGetters s1) t = Some g" by simp
    obtain s2 tr2 r2 where b: "(if path \<noteq> [] \<and> \<not> hot then graft_state env path ?m s1
        else (s1, [], Inr ())) = (s2, tr2, r2)"
      by (cases "if path \<noteq> [] \<and> \<not> hot then graft_state env path ?m s1 else (s1, [], Inr ())")
        auto
    with graft_state_getters [of env path ?m s1] k1
    have k2: "map_of (wrappedGetters s2) t = Some g"
      by (auto split: if_splits)
    show ?thesis
    proof (cases r2)
      case (Inl e)
      with Inr a b k2 show ?thesis by simp
    next
      case r2: (Inr u)
      let ?local = "makeLocalContext ns path"
      let ?s5 = "register_actions ns ?local ?m
        (register_mutations ns ?local ?m (s2\<lparr>contexts := assign path ?local (contexts s2)\<rparr>))"
      have k5: "map_of (wrappedGetters ?s5) t = Some g"
        using k2 by (simp add: register_actions_getters register_mutations_getters)
      obtain s6 tr3 r3 where c: "register_getters env ns ?local ?m ?s5 = (s6, tr3, r3)"
        by (cases "register_getters env ns ?local ?m ?s5") auto
      with register_getters_kept [OF k5, of env ns ?local ?m]
      have k6: "map_of (wrappedGetters s6) t = Some g" by simp
      obtain s7 tr4 r4 where d: "installChildren env path ch hot s6 = (s7, tr4, r4)"
        by (cases "installChildren env path ch hot s6") auto
      have "map_of (wrappedGetters (fst (installChildren env path ch hot s6))) t = Some g"
        by (rule "1.IH" [OF Inr a [symmetric] refl b [symmetric] refl r2 refl refl refl refl
              c [symmetric] refl k6])
      with Inr a b r2 c d show ?thesis
        by (simp add: Let_def)
    qed
  qed
next
  case (2 env path hot s)
  then show ?case by simp
next
  case (3 env path key child rest hot s)
  obtain s1 tr1 r1 where a: "installModule env (path @ [key]) child hot s = (s1, tr1, r1)"
    by (cases "installModule env (path @ [key]) child hot s") auto
  from "3.IH"(1) [OF "3.prems"] a have k1: "map_of (wrappedGetters s1) t = Some g"
    by simp
  show ?case
  proof (cases r1)
    case (Inl e)
    with a k1 show ?thesis by simp
  next
    case (Inr u)
    obtain s2 tr2 r2 where b: "installChildren env path rest hot s1 = (s2, tr2, r2)"
      by (cases "installChildren env path rest hot s1") auto
    from "3.IH"(2) [OF a [symmetric] refl Inr k1] b
    have "map_of (wrappedGetters s2) t = Some g" by simp
    with a Inr b show ?thesis by simp
  qed
qed

lemma graft_state_namespaces:
  "modulesNamespaceMap (fst (graft_state env path m s)) = modulesNamespaceMap s"
  by (simp add: graft_state_def graft_body_def withCommit_def set_state_def
      split: sum.splits)

lemma register_mutations_namespaces:
  "modulesNamespaceMap (register_mutations ns local m s) = modulesNamespaceMap s"
  unfolding register_mutations_def
  by (rule fold_preserves) (simp add: registerMutation_def Let_def split: prod.splits)

lemma register_actions_namespaces:
  "modulesNamespaceMap (register_actions ns local m s) = modulesNamespaceMap s"
  unfolding register_actions_def
  by (rule fold_preserves) (simp add: registerAction_frame split: prod.splits)

lemma forEach_preserves:
  assumes "\<And>x s. P (fst (f x s)) = P s"
  shows "P (fst (forEach f xs s)) = P s"
proof (induction xs arbitrary: s)
  case Nil
  then show ?case by simp
next
  case (Cons x xs)
  obtain s1 tr1 r1 where a: "f x s = (s1, tr1, r1)"
    by (cases "f x s") auto
  with assms [of x s] have 1: "P s1 = P s" by simp
  show ?case
  proof (cases r1)
    case (Inl e)
    with a 1 show ?thesis by simp
  next
    case (Inr u)
    obtain s2 tr2 r2 where b: "forEach f xs s1 = (s2, tr2, r2)"
      by (cases "forEach f xs s1") auto
    with Cons.IH [of s1] 1 have "P s2 = P s" by simp
    with a Inr b show ?thesis by simp
  qed
qed

lemma register_getters_namespaces:
  "modulesNamespaceMap (fst (register_getters env ns local m s)) = modulesNamespaceMap s"
  unfolding register_getters_def
  by (rule forEach_preserves) (simp add: registerGetter_def split: prod.splits option.splits)

lemma installModule_leaf_namespace:
  assumes ns: "getNamespace (modules s) path = Inr ns"
    and named: "namespaced (Module rt [] raw st)"
  shows "map_of (modulesNamespaceMap (fst (installModule env path (Module rt [] raw st) hot s))) ns =
     Some (Module rt [] raw st)"
proof -
  let ?m = "Module rt [] raw st"
  let ?local = "makeLocalContext ns path"
  obtain s1 tr1 r1 where a: "register_namespace env ns path ?m s = (s1, tr1, r1)"
    by (cases "register_namespace env ns path ?m s") auto
  with named have k1: "map_of (modulesNamespaceMap s1) ns = Some ?m"
    by (auto simp: register_namespace_def map_of_assign_same)
  obtain s2 tr2 r2 where b: "(if path \<noteq> [] \<and> \<not> hot then graft_state env path ?m s1
      else (s1, [], Inr ())) = (s2, tr2, r2)"
    by (cases "if path \<noteq> [] \<and> \<not> hot then graft_state env path ?m s1 else (s1, [], Inr ())")
      auto
  with graft_state_namespaces [of env path ?m s1] k1
  have k2: "map_of (modulesNamespaceMap s2) ns = Some ?m"
    by (auto split: if_splits)
  show ?thesis
  proof (cases r2)
    case (Inl e)
    with ns a b k2 show ?thesis by simp
  next
    case (Inr u)
    let ?s5 = "register_actions ns ?local ?m
      (register_mutations ns ?local ?m (s2\<lparr>contexts := assign path ?local (contexts s2)\<rparr>))"
    have k5: "map_of (modulesNamespaceMap ?s5) ns = Some ?m"
      using k2 by (simp add: register_actions_namespaces register_mutations_namespaces)
    obtain s6 tr3 r3 where c: "register_getters env ns ?local ?m ?s5 = (s6, tr3, r3)"
      by (cases "register_getters env ns ?local ?m ?s5") auto
    with register_getters_namespaces [of env ns ?local ?m ?s5] k5
    have "map_of (modulesNamespaceMap s6) ns = Some ?m" by simp
    with ns a b Inr c show ?thesis
      by (simp add: Let_def)
  qed
qed

text \<open>
  C5, amended. When a namespaced module is installed under a namespace that the map holds
  already, the collision is reported in a development build and is not fatal, and the map
  entry is overwritten: it holds the module registered last. When a getter is registered
  under a key that the registry holds already, the collision is reported in a development
  build and is not fatal, and the registry is left as it was: the getter registered first
  is kept and the later one discarded, and no step of the install walk replaces it.
\<close>

theorem duplicate_registration:
  "(namespaced m \<longrightarrow>
      register_namespace env ns path m s =
        (s\<lparr>modulesNamespaceMap := assign ns m (modulesNamespaceMap s)\<rparr>,
         if map_of (modulesNamespaceMap s) ns \<noteq> None \<and> DEV env
         then [ConsoleError (''[vuex] duplicate namespace '' @ ns @
                 '' for the namespaced module '' @ join path ''/'')]
         else [],
         Inr ()) \<and>
      map_of (modulesNamespaceMap (fst (register_namespace env ns path m s))) ns = Some m) \<and>
   (namespaced m \<and> children m = [] \<and> getNamespace (modules s) path = Inr ns \<longrightarrow>
      map_of (modulesNamespaceMap (fst (installModule env path m hot s))) ns = Some m) \<and>
   (map_of (wrappedGetters s) type = Some g \<longrightarrow>
      registerGetter env type rawGetter local s =
        (s, if DEV env then [ConsoleError (''[vuex] duplicate getter key: '' @ type)] else [],
         Inr ())) \<and>
   (map_of (wrappedGetters s) type = None \<longrightarrow>
      registerGetter env type rawGetter local s =
        (s\<lparr>wrappedGetters := assign type (rawGetter, local) (wrappedGetters s)\<rparr>, [], Inr ()) \<and>
      map_of (wrappedGetters (fst (registerGetter env type rawGetter local s))) type =
        Some (rawGetter, local)) \<and>
   (map_of (wrappedGetters s) type = Some g \<longrightarrow>
      map_of (wrappedGetters (fst (installModule env path m hot s))) type = Some g)"
proof (intro conjI impI)
  assume "namespaced m"
  then show "register_namespace env ns path m s =
        (s\<lparr>modulesNamespaceMap := assign ns m (modulesNamespaceMap s)\<rparr>,
         if map_of (modulesNamespaceMap s) ns \<noteq> None \<and> DEV env
         then [ConsoleError (''[vuex] duplicate namespace '' @ ns @
                 '' for the namespaced module '' @ join path ''/'')]
         else [],
         Inr ())"
    by (simp add: register_namespace_def)
  then show "map_of (modulesNamespaceMap (fst (register_namespace env ns path m s))) ns = Some m"
    by (simp add: map_of_assign_same)
next
  assume a: "namespaced m \<and> children m = [] \<and> getNamespace (modules s) path = Inr ns"
  then obtain rt raw st where m: "m = Module rt [] raw st"
    by (cases m) auto
  with a installModule_leaf_namespace [of s path ns rt raw st env hot]
  show "map_of (modulesNamespaceMap (fst (installModule env path m hot s))) ns = Some m"
    by simp
next
  assume "map_of (wrappedGetters s) type = Some g"
  then show "registerGetter env type rawGetter local s =
        (s, if DEV env then [ConsoleError (''[vuex] duplicate getter key: '' @ type)] else [],
         Inr ())"
    by (simp add: registerGetter_def)
next
  assume "map_of (wrappedGetters s) type = None"
  then show "registerGetter env type rawGetter local s =
        (s\<lparr>wrappedGetters := assign type (rawGetter, local) (wrappedGetters s)\<rparr>, [], Inr ())"
    by (simp add: registerGetter_def)
  then show "map_of (wrappedGetters (fst (registerGetter env type rawGetter local s))) type =
        Some (rawGetter, local)"
    by (simp add: map_of_assign_same)
next
  assume "map_of (wrappedGetters s) type = Some g"
  then show "map_of (wrappedGetters (fst (installModule env path m hot s))) type = Some g"
    by (rule installModule_keeps_getter)
qed

text \<open>
  On the example tree, at the moment the walk comes to the module at \<^verbatim>\<open>a/c\<close>.
\<close>

theorem duplicate_registration_witness:
  "register_namespace example_env ''a/c/'' [''a'', ''c''] example_late example_installed =
     (example_installed\<lparr>modulesNamespaceMap := [(''a/c/'', example_late)]\<rparr>,
      [ConsoleError ''[vuex] duplicate namespace a/c/ for the namespaced module a/c''],
      Inr ()) \<and>
   map_of (modulesNamespaceMap
     (fst (installModule example_env [''a'', ''c''] example_late False example_installed)))
     ''a/c/'' = Some example_late \<and>
   registerGetter example_env ''a/c/total'' 51
     \<lparr>lc_namespace = ''a/c/'', lc_path = [''a'', ''c'']\<rparr> example_installed =
     (example_installed, [ConsoleError ''[vuex] duplicate getter key: a/c/total''], Inr ()) \<and>
   map_of (wrappedGetters
     (fst (installModule example_env [''a'', ''c''] example_late False example_installed)))
     ''a/c/total'' = Some (50, \<lparr>lc_namespace = ''a/c/'', lc_path = [''a'', ''b'', ''c'']\<rparr>)"
proof -
  let ?g = "(50 :: nat, \<lparr>lc_namespace = ''a/c/'', lc_path = [''a'', ''b'', ''c'']\<rparr>)"
  have named: "namespaced example_late"
    by (simp add: example_late_def namespaced_def)
  have leaf: "children example_late = []"
    by (simp add: example_late_def)
  have ns: "getNamespace (modules example_installed) [''a'', ''c''] = Inr ''a/c/''"
    by (simp add: example_installed_def example_tree_def example_late_def example_deep_def
        namespaced_def example_raw_def)
  have g: "map_of (wrappedGetters example_installed) ''a/c/total'' = Some ?g"
    by (simp add: example_installed_def)
  have dev: "DEV example_env"
    by (simp add: example_env_def)
  have old: "map_of (modulesNamespaceMap example_installed) ''a/c/'' = Some example_deep"
    by (simp add: example_installed_def)
  note inst = duplicate_registration [where m = example_late and env = example_env
      and ns = "''a/c/''" and path = "[''a'', ''c'']" and s = example_installed
      and type = "''a/c/total''" and g = ?g and hot = False and rawGetter = 51
      and local = "\<lparr>lc_namespace = ''a/c/'', lc_path = [''a'', ''c'']\<rparr>"]
  from inst named dev old
  have 1: "register_namespace example_env ''a/c/'' [''a'', ''c''] example_late example_installed =
     (example_installed\<lparr>modulesNamespaceMap := [(''a/c/'', example_late)]\<rparr>,
      [ConsoleError ''[vuex] duplicate namespace a/c/ for the namespaced module a/c''],
      Inr ())"
    by (simp add: example_installed_def)
  from inst named leaf ns
  have 2: "map_of (modulesNamespaceMap
     (fst (installModule example_env [''a'', ''c''] example_late False example_installed)))
     ''a/c/'' = Some example_late"
    by blast
  from inst g dev
  have 3: "registerGetter example_env ''a/c/total'' 51
     \<lparr>lc_namespace = ''a/c/'', lc_path = [''a'', ''c'']\<rparr> example_installed =
     (example_installed, [ConsoleError ''[vuex] duplicate getter key: a/c/total''], Inr ())"
    by simp
  from inst g
  have 4: "map_of (wrappedGetters
     (fst (installModule example_env [''a'', ''c''] example_late False example_installed)))
     ''a/c/total'' = Some ?g"
    by blast
  from 1 2 3 4 show ?thesis
    by simp
qed

end
